theory Spec2Isabelle
  imports Main
begin

section \<open>The ribbon slider of \<^verbatim>\<open>src/demo1/scripts.js\<close>\<close>

text \<open>
  The development embeds the class \<^verbatim>\<open>RibbonSlider\<close> and the visibility handler of
  \<^verbatim>\<open>VisibilityController\<close>. Every method is a function on an explicit state; a
  method that can throw returns a completion that still carries the state, because the
  writes made before a JavaScript exception stay in place.
\<close>

subsection \<open>Configuration\<close>

definition SLIDER_INTERVAL :: nat where
  "SLIDER_INTERVAL = 5000"

definition SWIPE_THRESHOLD :: int where
  "SWIPE_THRESHOLD = 50"

subsection \<open>JavaScript numbers\<close>

text \<open>
  The slide index is a JavaScript number. All values that the slider computes are
  integers far below \<open>2^53\<close>, where double arithmetic is exact, or \<^verbatim>\<open>NaN\<close>
  (the remainder by zero). \<open>Num 0\<close> stands for both zeros, which \<^verbatim>\<open>===\<close> and
  \<^verbatim>\<open><\<close> do not tell apart.
\<close>

datatype jsnum = Num int | NaN

fun js_add :: "jsnum \<Rightarrow> jsnum \<Rightarrow> jsnum" where
  "js_add (Num a) (Num b) = Num (a + b)"
| "js_add _ _ = NaN"

fun js_sub :: "jsnum \<Rightarrow> jsnum \<Rightarrow> jsnum" where
  "js_sub (Num a) (Num b) = Num (a - b)"
| "js_sub _ _ = NaN"

text \<open>The operator \<^verbatim>\<open>%\<close>: the result takes the sign of the dividend, and a zero
  divisor gives \<^verbatim>\<open>NaN\<close>.\<close>

fun js_mod :: "jsnum \<Rightarrow> jsnum \<Rightarrow> jsnum" where
  "js_mod (Num a) (Num b) = (if b = 0 then NaN else Num (sgn a * (\<bar>a\<bar> mod \<bar>b\<bar>)))"
| "js_mod _ _ = NaN"

text \<open>Strict equality and \<^verbatim>\<open><\<close>: every comparison with \<^verbatim>\<open>NaN\<close> is false.\<close>

fun js_strict_eq :: "jsnum \<Rightarrow> jsnum \<Rightarrow> bool" where
  "js_strict_eq (Num a) (Num b) = (a = b)"
| "js_strict_eq _ _ = False"

fun js_lt :: "jsnum \<Rightarrow> jsnum \<Rightarrow> bool" where
  "js_lt (Num a) (Num b) = (a < b)"
| "js_lt _ _ = False"

subsection \<open>Elements and their class lists\<close>

text \<open>
  An element carries its \<^verbatim>\<open>classList\<close>, an ordered set of tokens, and the value of
  \<^verbatim>\<open>style.animation\<close>.
\<close>

record element =
  classList :: "string list"
  style_animation :: string

definition classList_remove :: "string list \<Rightarrow> string list \<Rightarrow> string list" where
  "classList_remove tokens cl = filter (\<lambda>c. c \<notin> set tokens) cl"

definition classList_add :: "string \<Rightarrow> string list \<Rightarrow> string list" where
  "classList_add token cl = (if token \<in> set cl then cl else cl @ [token])"

text \<open>\<^verbatim>\<open>classList.toggle(token, force)\<close> with the second argument given.\<close>

definition classList_toggle :: "string \<Rightarrow> bool \<Rightarrow> string list \<Rightarrow> string list" where
  "classList_toggle token force cl =
     (if force then classList_add token cl else classList_remove [token] cl)"

definition has_class :: "string \<Rightarrow> element \<Rightarrow> bool" where
  "has_class token e = (token \<in> set (classList e))"

text \<open>\<^verbatim>\<open>forEach((x, index) => ...)\<close> over a node list, the callback rewriting the
  node it visits.\<close>

fun forEach_from :: "nat \<Rightarrow> ('a \<Rightarrow> nat \<Rightarrow> 'a) \<Rightarrow> 'a list \<Rightarrow> 'a list" where
  "forEach_from i f [] = []"
| "forEach_from i f (x # xs) = f x i # forEach_from (Suc i) f xs"

definition forEach :: "('a \<Rightarrow> nat \<Rightarrow> 'a) \<Rightarrow> 'a list \<Rightarrow> 'a list" where
  "forEach f xs = forEach_from 0 f xs"

subsection \<open>The slider and the host's timers\<close>

text \<open>
  The host keeps one table of active timers, shared by \<^verbatim>\<open>setInterval\<close> and
  \<^verbatim>\<open>setTimeout\<close>; a handle is a positive integer. The two callbacks that the
  slider ever schedules are the recurring advance of \<^verbatim>\<open>startAutoPlay\<close> and the
  one-shot animation reset of \<^verbatim>\<open>restartProgressBar\<close>.

  The state holds the fields of the slider object, followed by the host's timer table
  and its next free handle. The slides, the dots and the progress bar are kept as
  separate values: an element is taken to match only one of the selectors
  \<^verbatim>\<open>.ribbon-item\<close>, \<^verbatim>\<open>.nav-dot\<close> and \<^verbatim>\<open>.progress-fill\<close>. Touch coordinates
  (\<^verbatim>\<open>clientX\<close>) are integers.
\<close>

datatype task = AutoAdvance | ProgressAnimation

datatype js_error = TypeError

datatype 'a completion = Normal 'a | Throw js_error 'a

fun state_of :: "'a completion \<Rightarrow> 'a" where
  "state_of (Normal s) = s"
| "state_of (Throw e s) = s"

fun threw :: "'a completion \<Rightarrow> bool" where
  "threw (Normal s) = False"
| "threw (Throw e s) = True"

record RibbonSlider =
  currentSlide :: jsnum
  slides :: "element list"
  dots :: "element list"
  totalSlides :: nat
  autoPlayInterval :: "nat option"
  progressBar :: "element option"
  touchStartX :: int
  touchEndX :: int
  timers :: "(nat \<times> task) list"
  next_handle :: nat

text \<open>\<^verbatim>\<open>setInterval\<close> and \<^verbatim>\<open>setTimeout\<close> enter a task under a fresh handle;
  \<^verbatim>\<open>clearInterval\<close> removes the entry of a handle.\<close>

definition schedule :: "task \<Rightarrow> RibbonSlider \<Rightarrow> RibbonSlider" where
  "schedule t s =
     s\<lparr>timers := timers s @ [(next_handle s, t)], next_handle := Suc (next_handle s)\<rparr>"

definition clearInterval :: "nat \<Rightarrow> RibbonSlider \<Rightarrow> RibbonSlider" where
  "clearInterval h s = s\<lparr>timers := filter (\<lambda>p. fst p \<noteq> h) (timers s)\<rparr>"

text \<open>The recurring advances that are pending, by handle.\<close>

definition pending_advances :: "RibbonSlider \<Rightarrow> nat list" where
  "pending_advances s = map fst (filter (\<lambda>p. snd p = AutoAdvance) (timers s))"

definition pending_animations :: "RibbonSlider \<Rightarrow> nat list" where
  "pending_animations s = map fst (filter (\<lambda>p. snd p = ProgressAnimation) (timers s))"

subsection \<open>\<^verbatim>\<open>goToSlide\<close>, \<^verbatim>\<open>nextSlide\<close>, \<^verbatim>\<open>prevSlide\<close>\<close>

definition update_slide :: "jsnum \<Rightarrow> element \<Rightarrow> nat \<Rightarrow> element" where
  "update_slide slideIndex slide index =
     (let cl = classList_remove [''active'', ''prev'', ''next''] (classList slide)
      in slide\<lparr>classList :=
           (if js_strict_eq (Num (int index)) slideIndex then classList_add ''active'' cl
            else if js_lt (Num (int index)) slideIndex then classList_add ''prev'' cl
            else classList_add ''next'' cl)\<rparr>)"

definition update_dot :: "jsnum \<Rightarrow> element \<Rightarrow> nat \<Rightarrow> element" where
  "update_dot slideIndex dot index =
     dot\<lparr>classList :=
       classList_toggle ''active'' (js_strict_eq (Num (int index)) slideIndex) (classList dot)\<rparr>"

definition goToSlide :: "jsnum \<Rightarrow> RibbonSlider \<Rightarrow> RibbonSlider" where
  "goToSlide slideIndex s =
     s\<lparr>slides := forEach (update_slide slideIndex) (slides s),
       dots := forEach (update_dot slideIndex) (dots s),
       currentSlide := slideIndex\<rparr>"

definition nextSlide :: "RibbonSlider \<Rightarrow> RibbonSlider" where
  "nextSlide s =
     (let next = js_mod (js_add (currentSlide s) (Num 1)) (Num (int (totalSlides s)))
      in goToSlide next s)"

definition prevSlide :: "RibbonSlider \<Rightarrow> RibbonSlider" where
  "prevSlide s =
     (let prev = js_mod (js_add (js_sub (currentSlide s) (Num 1)) (Num (int (totalSlides s))))
                        (Num (int (totalSlides s)))
      in goToSlide prev s)"

subsection \<open>Autoplay\<close>

definition startAutoPlay :: "RibbonSlider \<Rightarrow> RibbonSlider" where
  "startAutoPlay s = (schedule AutoAdvance s)\<lparr>autoPlayInterval := Some (next_handle s)\<rparr>"

text \<open>The test \<^verbatim>\<open>if (this.autoPlayInterval)\<close>: \<^verbatim>\<open>null\<close> and \<open>0\<close> are falsy.\<close>

definition stopAutoPlay :: "RibbonSlider \<Rightarrow> RibbonSlider" where
  "stopAutoPlay s =
     (case autoPlayInterval s of
        None \<Rightarrow> s
      | Some h \<Rightarrow> if h \<noteq> 0 then clearInterval h s else s)"

text \<open>Reading \<^verbatim>\<open>this.progressBar.style\<close> throws a \<^verbatim>\<open>TypeError\<close> when
  \<^verbatim>\<open>querySelector\<close> found no element.\<close>

definition restartProgressBar :: "RibbonSlider \<Rightarrow> RibbonSlider completion" where
  "restartProgressBar s =
     (case progressBar s of
        None \<Rightarrow> Throw TypeError s
      | Some bar \<Rightarrow>
          Normal (schedule ProgressAnimation
                    (s\<lparr>progressBar := Some (bar\<lparr>style_animation := ''none''\<rparr>)\<rparr>)))"

definition restartAutoPlay :: "RibbonSlider \<Rightarrow> RibbonSlider completion" where
  "restartAutoPlay s = restartProgressBar (startAutoPlay (stopAutoPlay s))"

subsection \<open>Construction\<close>

text \<open>
  The constructor receives what the three DOM queries return and the host's next free
  timer handle; \<^verbatim>\<open>init\<close> binds the listeners (the handlers below) and starts
  autoplay.
\<close>

definition init :: "RibbonSlider \<Rightarrow> RibbonSlider" where
  "init s = startAutoPlay s"

definition new_RibbonSlider ::
  "element list \<Rightarrow> element list \<Rightarrow> element option \<Rightarrow> nat \<Rightarrow> RibbonSlider" where
  "new_RibbonSlider ribbon_items nav_dots progress_fill h0 =
     init \<lparr>currentSlide = Num 0, slides = ribbon_items, dots = nav_dots,
           totalSlides = length ribbon_items, autoPlayInterval = None,
           progressBar = progress_fill, touchStartX = 0, touchEndX = 0,
           timers = [], next_handle = h0\<rparr>"

subsection \<open>Event handlers\<close>

text \<open>The click listener that \<^verbatim>\<open>bindEvents\<close> attaches to the dot at \<open>index\<close>.\<close>

definition dotClick :: "nat \<Rightarrow> RibbonSlider \<Rightarrow> RibbonSlider completion" where
  "dotClick index s = restartAutoPlay (goToSlide (Num (int index)) s)"

definition handleKeydown :: "string \<Rightarrow> RibbonSlider \<Rightarrow> RibbonSlider completion" where
  "handleKeydown key s =
     (if key = ''ArrowLeft'' then restartAutoPlay (prevSlide s)
      else if key = ''ArrowRight'' then restartAutoPlay (nextSlide s)
      else Normal s)"

definition handleTouchStart :: "int \<Rightarrow> RibbonSlider \<Rightarrow> RibbonSlider" where
  "handleTouchStart clientX s = s\<lparr>touchStartX := clientX\<rparr>"

definition handleSwipe :: "RibbonSlider \<Rightarrow> RibbonSlider completion" where
  "handleSwipe s =
     (let diff = touchStartX s - touchEndX s
      in if \<bar>diff\<bar> > SWIPE_THRESHOLD
         then restartAutoPlay (if diff > 0 then nextSlide s else prevSlide s)
         else Normal s)"

definition handleTouchEnd :: "int \<Rightarrow> RibbonSlider \<Rightarrow> RibbonSlider completion" where
  "handleTouchEnd clientX s = handleSwipe (s\<lparr>touchEndX := clientX\<rparr>)"

text \<open>The listener of \<^verbatim>\<open>VisibilityController\<close>; the argument is
  \<^verbatim>\<open>document.hidden\<close>.\<close>

definition handleVisibilityChange :: "bool \<Rightarrow> RibbonSlider \<Rightarrow> RibbonSlider" where
  "handleVisibilityChange hidden s = (if hidden then stopAutoPlay s else startAutoPlay s)"

text \<open>The callbacks of the two kinds of timer. The animation value is the template
  literal of \<^verbatim>\<open>restartProgressBar\<close> with \<^verbatim>\<open>SLIDER_INTERVAL\<close> filled in; a timeout
  leaves the timer table when it fires.\<close>

definition intervalCallback :: "RibbonSlider \<Rightarrow> RibbonSlider" where
  "intervalCallback s = nextSlide s"

definition timeoutCallback :: "nat \<Rightarrow> RibbonSlider \<Rightarrow> RibbonSlider completion" where
  "timeoutCallback h s =
     (case progressBar (clearInterval h s) of
        None \<Rightarrow> Throw TypeError (clearInterval h s)
      | Some bar \<Rightarrow>
          Normal ((clearInterval h s)
                    \<lparr>progressBar := Some (bar\<lparr>style_animation := ''progressFill 5000ms linear infinite''\<rparr>)\<rparr>))"

subsection \<open>Events\<close>

datatype event =
    DotClick nat
  | KeyDown string
  | TouchStart int
  | TouchEnd int
  | VisibilityChange bool
  | IntervalFires nat
  | TimeoutFires nat

text \<open>An event can only be delivered to a listener that exists: a click needs its dot,
  a timer callback needs its pending timer.\<close>

fun enabled :: "RibbonSlider \<Rightarrow> event \<Rightarrow> bool" where
  "enabled s (DotClick i) = (i < length (dots s))"
| "enabled s (IntervalFires h) = ((h, AutoAdvance) \<in> set (timers s))"
| "enabled s (TimeoutFires h) = ((h, ProgressAnimation) \<in> set (timers s))"
| "enabled s _ = True"

fun fire :: "event \<Rightarrow> RibbonSlider \<Rightarrow> RibbonSlider completion" where
  "fire (DotClick i) s = dotClick i s"
| "fire (KeyDown k) s = handleKeydown k s"
| "fire (TouchStart x) s = Normal (handleTouchStart x s)"
| "fire (TouchEnd x) s = handleTouchEnd x s"
| "fire (VisibilityChange hidden) s = Normal (handleVisibilityChange hidden s)"
| "fire (IntervalFires h) s = Normal (intervalCallback s)"
| "fire (TimeoutFires h) s = timeoutCallback h s"

text \<open>The event loop: an event that is not enabled does not happen, and an exception
  thrown by a handler ends that handler only.\<close>

fun run_events :: "event list \<Rightarrow> RibbonSlider \<Rightarrow> RibbonSlider" where
  "run_events [] s = s"
| "run_events (e # es) s =
     run_events es (if enabled s e then state_of (fire e s) else s)"

subsection \<open>Sequences of slide calls\<close>

datatype call = GoToSlide nat | NextSlide | PrevSlide

fun do_call :: "call \<Rightarrow> RibbonSlider \<Rightarrow> RibbonSlider" where
  "do_call (GoToSlide i) s = goToSlide (Num (int i)) s"
| "do_call NextSlide s = nextSlide s"
| "do_call PrevSlide s = prevSlide s"

fun do_calls :: "call list \<Rightarrow> RibbonSlider \<Rightarrow> RibbonSlider" where
  "do_calls [] s = s"
| "do_calls (c # cs) s = do_calls cs (do_call c s)"

text \<open>\<^verbatim>\<open>goToSlide\<close> is only ever called by the click listener of an existing dot.\<close>

fun from_dot :: "RibbonSlider \<Rightarrow> call \<Rightarrow> bool" where
  "from_dot s (GoToSlide i) = (i < length (dots s))"
| "from_dot s _ = True"

subsection \<open>What the page shows\<close>

text \<open>The part of the state that \<^verbatim>\<open>goToSlide\<close> reads and writes.\<close>

definition presentation :: "RibbonSlider \<Rightarrow> jsnum \<times> element list \<times> element list \<times> nat" where
  "presentation s = (currentSlide s, slides s, dots s, totalSlides s)"

text \<open>
  The deck shows slide \<open>m\<close>: \<^verbatim>\<open>currentSlide\<close> is \<open>m\<close>, slide \<open>m\<close> is the only slide
  with the class \<^verbatim>\<open>active\<close>, the slides with \<^verbatim>\<open>prev\<close> are exactly those before
  \<open>m\<close>, the slides with \<^verbatim>\<open>next\<close> exactly those after \<open>m\<close>, and dot \<open>m\<close> is the
  only dot with the class \<^verbatim>\<open>active\<close>.
\<close>

definition shows_slide :: "nat \<Rightarrow> RibbonSlider \<Rightarrow> bool" where
  "shows_slide m s \<longleftrightarrow>
     m < length (slides s) \<and> currentSlide s = Num (int m)
     \<and> filter (\<lambda>i. has_class ''active'' (slides s ! i)) [0..<length (slides s)] = [m]
     \<and> list_all (\<lambda>i. has_class ''prev'' (slides s ! i) = (i < m)
                    \<and> has_class ''next'' (slides s ! i) = (m < i)) [0..<length (slides s)]
     \<and> filter (\<lambda>j. has_class ''active'' (dots s ! j)) [0..<length (dots s)] = [m]"

subsection \<open>A sample page\<close>

text \<open>Markup for evaluating the handlers: three slides, the first shown as active, a dot
  for each, and the progress bar.\<close>

definition ribbon_item :: "string list \<Rightarrow> element" where
  "ribbon_item extra = \<lparr>classList = ''ribbon-item'' # extra, style_animation = []\<rparr>"

definition nav_dot :: "string list \<Rightarrow> element" where
  "nav_dot extra = \<lparr>classList = ''nav-dot'' # extra, style_animation = []\<rparr>"

definition progress_fill :: element where
  "progress_fill = \<lparr>classList = [''progress-fill''], style_animation = []\<rparr>"

definition sample_slides :: "element list" where
  "sample_slides = [ribbon_item [''active''], ribbon_item [], ribbon_item []]"

definition sample_dots :: "element list" where
  "sample_dots = [nav_dot [''active''], nav_dot [], nav_dot []]"

definition sample :: RibbonSlider where
  "sample = new_RibbonSlider sample_slides sample_dots (Some progress_fill) 1"

text \<open>The same page with a fourth dot, and the same page without the progress bar.\<close>

definition sample_extra_dot :: RibbonSlider where
  "sample_extra_dot =
     new_RibbonSlider sample_slides (sample_dots @ [nav_dot []]) (Some progress_fill) 1"

definition sample_no_bar :: RibbonSlider where
  "sample_no_bar = new_RibbonSlider sample_slides sample_dots None 1"

text \<open>The same page with no \<^verbatim>\<open>active\<close> class in its markup.\<close>

definition sample_unmarked :: RibbonSlider where
  "sample_unmarked =
     new_RibbonSlider [ribbon_item [], ribbon_item [], ribbon_item []]
       [nav_dot [], nav_dot [], nav_dot []] (Some progress_fill) 1"

text \<open>A page that has neither slides nor dots.\<close>

definition sample_empty :: RibbonSlider where
  "sample_empty = new_RibbonSlider [] [] (Some progress_fill) 1"

lemmas sample_defs =
  sample_def sample_extra_dot_def sample_no_bar_def sample_empty_def
  sample_slides_def sample_dots_def ribbon_item_def nav_dot_def progress_fill_def
  new_RibbonSlider_def init_def startAutoPlay_def schedule_def

section \<open>Basic facts\<close>

subsection \<open>Iteration\<close>

lemma length_forEach_from: "length (forEach_from i f xs) = length xs"
  by (induction xs arbitrary: i) auto

lemma nth_forEach_from: "n < length xs \<Longrightarrow> forEach_from i f xs ! n = f (xs ! n) (i + n)"
proof (induction xs arbitrary: i n)
  case Nil
  then show ?case by simp
next
  case (Cons x xs)
  then show ?case by (cases n) auto
qed

lemma length_forEach: "length (forEach f xs) = length xs"
  by (simp add: forEach_def length_forEach_from)

lemma nth_forEach: "n < length xs \<Longrightarrow> forEach f xs ! n = f (xs ! n) n"
  by (simp add: forEach_def nth_forEach_from)

lemma forEach_idem:
  assumes "\<And>x n. f (f x n) n = f x n"
  shows "forEach f (forEach f xs) = forEach f xs"
  by (rule nth_equalityI) (simp_all add: length_forEach nth_forEach assms)

lemma filter_upt_single:
  assumes "k < n" and "\<And>i. i < n \<Longrightarrow> P i \<longleftrightarrow> i = k"
  shows "filter P [0..<n] = [k]"
proof -
  have "filter P [0..<n] = filter (\<lambda>i. i = k) [0..<n]"
    by (rule filter_cong) (auto simp: assms)
  also have "\<dots> = [k]"
    using assms(1) by (induction n) auto
  finally show ?thesis .
qed

subsection \<open>The classes that \<^verbatim>\<open>goToSlide\<close> writes\<close>

lemma has_class_update_slide_active:
  "has_class ''active'' (update_slide k e i) \<longleftrightarrow> js_strict_eq (Num (int i)) k"
  by (auto simp: has_class_def update_slide_def classList_add_def classList_remove_def Let_def)

lemma has_class_update_slide_prev:
  "has_class ''prev'' (update_slide k e i)
     \<longleftrightarrow> \<not> js_strict_eq (Num (int i)) k \<and> js_lt (Num (int i)) k"
  by (auto simp: has_class_def update_slide_def classList_add_def classList_remove_def Let_def)

lemma has_class_update_slide_next:
  "has_class ''next'' (update_slide k e i)
     \<longleftrightarrow> \<not> js_strict_eq (Num (int i)) k \<and> \<not> js_lt (Num (int i)) k"
  by (auto simp: has_class_def update_slide_def classList_add_def classList_remove_def Let_def)

lemma has_class_update_dot:
  "has_class ''active'' (update_dot k e i) \<longleftrightarrow> js_strict_eq (Num (int i)) k"
  by (auto simp: has_class_def update_dot_def classList_toggle_def classList_add_def
      classList_remove_def)

lemma update_slide_idem: "update_slide k (update_slide k e i) i = update_slide k e i"
  by (auto simp: update_slide_def classList_add_def classList_remove_def Let_def)

lemma update_dot_idem: "update_dot k (update_dot k e i) i = update_dot k e i"
  by (auto simp: update_dot_def classList_toggle_def classList_add_def classList_remove_def)

lemma goToSlide_fields:
  "currentSlide (goToSlide k s) = k"
  "length (slides (goToSlide k s)) = length (slides s)"
  "length (dots (goToSlide k s)) = length (dots s)"
  "totalSlides (goToSlide k s) = totalSlides s"
  by (simp_all add: goToSlide_def length_forEach)

lemma goToSlide_slide_nth:
  "i < length (slides s) \<Longrightarrow> slides (goToSlide k s) ! i = update_slide k (slides s ! i) i"
  by (simp add: goToSlide_def nth_forEach)

lemma goToSlide_dot_nth:
  "i < length (dots s) \<Longrightarrow> dots (goToSlide k s) ! i = update_dot k (dots s ! i) i"
  by (simp add: goToSlide_def nth_forEach)

text \<open>Some slide is active after \<^verbatim>\<open>goToSlide(k)\<close> exactly when \<open>k\<close> is the index of
  a slide.\<close>

lemma some_slide_active_iff:
  "(\<exists>i < length (slides s). has_class ''active'' (slides (goToSlide (Num k) s) ! i))
     \<longleftrightarrow> 0 \<le> k \<and> k < int (length (slides s))"
proof
  assume "\<exists>i < length (slides s). has_class ''active'' (slides (goToSlide (Num k) s) ! i)"
  then show "0 \<le> k \<and> k < int (length (slides s))"
    by (auto simp: goToSlide_slide_nth has_class_update_slide_active)
next
  assume "0 \<le> k \<and> k < int (length (slides s))"
  then have "nat k < length (slides s)" "int (nat k) = k" by auto
  then show "\<exists>i < length (slides s). has_class ''active'' (slides (goToSlide (Num k) s) ! i)"
    by (auto simp: goToSlide_slide_nth has_class_update_slide_active intro!: exI[of _ "nat k"])
qed

subsection \<open>What restarting autoplay leaves alone\<close>

lemma restartAutoPlay_presentation:
  "currentSlide (state_of (restartAutoPlay s)) = currentSlide s"
  "slides (state_of (restartAutoPlay s)) = slides s"
  "dots (state_of (restartAutoPlay s)) = dots s"
  "totalSlides (state_of (restartAutoPlay s)) = totalSlides s"
  by (simp_all add: restartAutoPlay_def restartProgressBar_def startAutoPlay_def stopAutoPlay_def
      schedule_def clearInterval_def split: option.splits)

section \<open>An index beyond the last slide\<close>

text \<open>
  Claim C9. \<^verbatim>\<open>goToSlide\<close> does not check its argument. Called with an index that is
  at least the number of slides, as the click listener of a dot beyond the last slide
  does, it stores that index in \<^verbatim>\<open>currentSlide\<close>, gives every slide the class
  \<^verbatim>\<open>prev\<close> and leaves no slide \<^verbatim>\<open>active\<close> (nor \<^verbatim>\<open>next\<close>).
\<close>

theorem goToSlide_beyond_last_slide:
  assumes "length (slides s) \<le> index"
  shows "currentSlide (goToSlide (Num (int index)) s) = Num (int index)
    \<and> (\<forall>i < length (slides s).
          has_class ''prev'' (slides (goToSlide (Num (int index)) s) ! i)
        \<and> \<not> has_class ''active'' (slides (goToSlide (Num (int index)) s) ! i)
        \<and> \<not> has_class ''next'' (slides (goToSlide (Num (int index)) s) ! i))
    \<and> filter (has_class ''active'') (slides (goToSlide (Num (int index)) s)) = []
    \<and> currentSlide (state_of (dotClick index s)) = Num (int index)
    \<and> slides (state_of (dotClick index s)) = slides (goToSlide (Num (int index)) s)"
proof -
  let ?s' = "goToSlide (Num (int index)) s"
  have cls: "\<forall>i < length (slides s). has_class ''prev'' (slides ?s' ! i)
        \<and> \<not> has_class ''active'' (slides ?s' ! i) \<and> \<not> has_class ''next'' (slides ?s' ! i)"
    using assms
    by (simp add: goToSlide_slide_nth has_class_update_slide_active
        has_class_update_slide_prev has_class_update_slide_next)
  have "\<forall>e \<in> set (slides ?s'). \<not> has_class ''active'' e"
    using cls by (auto simp: in_set_conv_nth goToSlide_fields)
  then have none: "filter (has_class ''active'') (slides ?s') = []"
    by (simp add: filter_empty_conv)
  show ?thesis
    using cls none by (simp add: goToSlide_fields dotClick_def restartAutoPlay_presentation)
qed

text \<open>On the page with four dots and three slides, the fourth dot (index 3) is enabled
  and its click leaves the deck without an active slide.\<close>

theorem goToSlide_beyond_last_slide_witness:
  "enabled sample_extra_dot (DotClick 3)
   \<and> length (slides sample_extra_dot) \<le> 3
   \<and> currentSlide (state_of (dotClick 3 sample_extra_dot)) = Num 3
   \<and> filter (has_class ''active'') (slides (state_of (dotClick 3 sample_extra_dot))) = []
   \<and> map classList (slides (state_of (dotClick 3 sample_extra_dot)))
       = [[''ribbon-item'', ''prev''], [''ribbon-item'', ''prev''], [''ribbon-item'', ''prev'']]"
proof -
  have h: "length (slides sample_extra_dot) \<le> 3"
    by (simp add: sample_defs)
  have e: "enabled sample_extra_dot (DotClick 3)"
    by (simp add: sample_defs)
  have c: "map classList (slides (goToSlide (Num (int 3)) sample_extra_dot))
       = [[''ribbon-item'', ''prev''], [''ribbon-item'', ''prev''], [''ribbon-item'', ''prev'']]"
    by (simp add: sample_defs goToSlide_def forEach_def update_slide_def classList_add_def
        classList_remove_def)
  show ?thesis
    using h e c goToSlide_beyond_last_slide [OF h] by simp
qed

section \<open>Wraparound\<close>

subsection \<open>The index after \<^verbatim>\<open>nextSlide\<close> and \<^verbatim>\<open>prevSlide\<close>\<close>

lemma js_mod_nonneg:
  assumes "0 \<le> a" "0 < n"
  shows "js_mod (Num a) (Num n) = Num (a mod n)"
proof (cases "a = 0")
  case True
  then show ?thesis using assms by simp
next
  case False
  with assms have "sgn a = 1" "\<bar>a\<bar> = a" "\<bar>n\<bar> = n" by simp_all
  then show ?thesis using assms by simp
qed

lemma nextSlide_currentSlide:
  assumes "currentSlide s = Num k" "0 \<le> k" "0 < totalSlides s"
  shows "currentSlide (nextSlide s) = Num ((k + 1) mod int (totalSlides s))"
  using assms by (simp add: nextSlide_def goToSlide_fields js_mod_nonneg del: js_mod.simps)

lemma prevSlide_currentSlide:
  assumes "currentSlide s = Num k" "0 \<le> k" "0 < totalSlides s"
  shows "currentSlide (prevSlide s) = Num ((k - 1) mod int (totalSlides s))"
proof -
  have "0 \<le> k - 1 + int (totalSlides s)" using assms by simp
  then show ?thesis
    using assms by (simp add: prevSlide_def goToSlide_fields js_mod_nonneg del: js_mod.simps)
qed

lemma nextSlide_totalSlides: "totalSlides (nextSlide s) = totalSlides s"
  by (simp add: nextSlide_def goToSlide_fields)

lemma prevSlide_totalSlides: "totalSlides (prevSlide s) = totalSlides s"
  by (simp add: prevSlide_def goToSlide_fields)

lemma funpow_nextSlide:
  assumes "currentSlide s = Num k" "0 \<le> k" "k < int (totalSlides s)"
  shows "currentSlide ((nextSlide ^^ n) s) = Num ((k + int n) mod int (totalSlides s))
       \<and> totalSlides ((nextSlide ^^ n) s) = totalSlides s"
proof (induction n)
  case 0
  then show ?case using assms by simp
next
  case (Suc n)
  have pos: "0 < totalSlides s" using assms by simp
  have nn: "0 \<le> (k + int n) mod int (totalSlides s)" using pos by simp
  have "currentSlide (nextSlide ((nextSlide ^^ n) s))
          = Num (((k + int n) mod int (totalSlides s) + 1) mod int (totalSlides s))"
    using Suc pos nextSlide_currentSlide [of "(nextSlide ^^ n) s", OF _ nn] by simp
  also have "((k + int n) mod int (totalSlides s) + 1) mod int (totalSlides s)
          = (k + int (Suc n)) mod int (totalSlides s)"
  proof -
    have "((k + int n) mod int (totalSlides s) + 1) mod int (totalSlides s)
            = (k + int n + 1) mod int (totalSlides s)"
      by (rule mod_add_left_eq)
    moreover have "k + int n + 1 = k + int (Suc n)" by simp
    ultimately show ?thesis by simp
  qed
  finally show ?case
    using Suc by (simp add: nextSlide_totalSlides)
qed

text \<open>
  Claim C6. With at least one slide and \<^verbatim>\<open>currentSlide\<close> in \<open>0..N-1\<close>, calling
  \<^verbatim>\<open>nextSlide\<close> \<open>N\<close> times brings \<^verbatim>\<open>currentSlide\<close> back to where it started,
  and \<^verbatim>\<open>prevSlide\<close> undoes \<^verbatim>\<open>nextSlide\<close> and the other way round.
\<close>

theorem wraparound:
  assumes "currentSlide s = Num k" "0 \<le> k" "k < int (totalSlides s)"
  shows "currentSlide ((nextSlide ^^ totalSlides s) s) = currentSlide s
       \<and> currentSlide (prevSlide (nextSlide s)) = currentSlide s
       \<and> currentSlide (nextSlide (prevSlide s)) = currentSlide s"
proof -
  have pos: "0 < totalSlides s" using assms by simp
  have full: "currentSlide ((nextSlide ^^ totalSlides s) s) = Num k"
    using funpow_nextSlide [OF assms, of "totalSlides s"] assms by simp
  have n1: "currentSlide (nextSlide s) = Num ((k + 1) mod int (totalSlides s))"
    using assms pos by (simp add: nextSlide_currentSlide)
  have "currentSlide (prevSlide (nextSlide s))
          = Num (((k + 1) mod int (totalSlides s) - 1) mod int (totalSlides s))"
    using prevSlide_currentSlide [OF n1] pos by (simp add: nextSlide_totalSlides)
  then have pn: "currentSlide (prevSlide (nextSlide s)) = Num k"
    using assms by (simp add: mod_diff_left_eq)
  have p1: "currentSlide (prevSlide s) = Num ((k - 1) mod int (totalSlides s))"
    using assms pos by (simp add: prevSlide_currentSlide)
  have "currentSlide (nextSlide (prevSlide s))
          = Num (((k - 1) mod int (totalSlides s) + 1) mod int (totalSlides s))"
    using nextSlide_currentSlide [OF p1] pos by (simp add: prevSlide_totalSlides)
  then have np: "currentSlide (nextSlide (prevSlide s)) = Num k"
    using assms by (simp add: mod_add_left_eq)
  show ?thesis using full pn np assms(1) by simp
qed

text \<open>The sample page, which starts at slide 0 of 3.\<close>

theorem wraparound_witness:
  "currentSlide sample = Num 0 \<and> (0::int) \<le> 0 \<and> 0 < int (totalSlides sample)
   \<and> currentSlide ((nextSlide ^^ totalSlides sample) sample) = currentSlide sample
   \<and> currentSlide (prevSlide (nextSlide sample)) = currentSlide sample
   \<and> currentSlide (nextSlide (prevSlide sample)) = currentSlide sample
   \<and> currentSlide (nextSlide sample) = Num 1
   \<and> currentSlide (prevSlide sample) = Num 2"
proof -
  have a: "currentSlide sample = Num 0" by (simp add: sample_defs)
  have b: "(0::int) \<le> 0" by simp
  have c: "0 < int (totalSlides sample)" by (simp add: sample_defs)
  have t: "totalSlides sample = 3" by (simp add: sample_defs)
  have d: "currentSlide (nextSlide sample) = Num 1"
    by (simp add: nextSlide_def goToSlide_fields a t)
  have e: "currentSlide (prevSlide sample) = Num 2"
    by (simp add: prevSlide_def goToSlide_fields a t)
  show ?thesis
    using a c d e wraparound [OF a b c] by simp
qed

section \<open>Exactly one active slide\<close>

subsection \<open>Every call is a \<^verbatim>\<open>goToSlide\<close> to the index of a slide\<close>

lemma do_calls_append: "do_calls (cs @ ds) s = do_calls ds (do_calls cs s)"
  by (induction cs arbitrary: s) auto

lemma index_mod:
  assumes "0 < (n::nat)"
  shows "nat (a mod int n) < n" and "int (nat (a mod int n)) = a mod int n"
proof -
  have "0 \<le> a mod int n" "a mod int n < int n" using assms by simp_all
  then show "nat (a mod int n) < n" and "int (nat (a mod int n)) = a mod int n"
    by linarith+
qed

lemma do_call_index:
  assumes "totalSlides s = length (slides s)" "currentSlide s = Num k" "0 \<le> k"
    "k < int (length (slides s))" "from_dot s c" "length (dots s) = length (slides s)"
  shows "\<exists>m < length (slides s). do_call c s = goToSlide (Num (int m)) s"
proof (cases c)
  case (GoToSlide i)
  then show ?thesis using assms by auto
next
  case NextSlide
  have pos: "0 < int (totalSlides s)" using assms by linarith
  then have pos': "0 < totalSlides s" by simp
  have "0 \<le> k + 1" using assms by simp
  then have "js_mod (Num (k + 1)) (Num (int (totalSlides s))) = Num ((k + 1) mod int (totalSlides s))"
    using pos by (rule js_mod_nonneg)
  then have eq: "nextSlide s = goToSlide (Num ((k + 1) mod int (totalSlides s))) s"
    using assms by (simp add: nextSlide_def)
  let ?m = "nat ((k + 1) mod int (totalSlides s))"
  have "?m < length (slides s)" "int ?m = (k + 1) mod int (totalSlides s)"
    using index_mod [OF pos', of "k + 1"] assms(1) by simp_all
  then show ?thesis using NextSlide eq by (intro exI[of _ ?m]) simp
next
  case PrevSlide
  have pos: "0 < int (totalSlides s)" using assms by linarith
  then have pos': "0 < totalSlides s" by simp
  have "0 \<le> k - 1 + int (totalSlides s)" using assms by simp
  then have "js_mod (Num (k - 1 + int (totalSlides s))) (Num (int (totalSlides s)))
       = Num ((k - 1 + int (totalSlides s)) mod int (totalSlides s))"
    using pos by (rule js_mod_nonneg)
  then have eq: "prevSlide s = goToSlide (Num ((k - 1) mod int (totalSlides s))) s"
    using assms by (simp add: prevSlide_def)
  let ?m = "nat ((k - 1) mod int (totalSlides s))"
  have "?m < length (slides s)" "int ?m = (k - 1) mod int (totalSlides s)"
    using index_mod [OF pos', of "k - 1"] assms(1) by simp_all
  then show ?thesis using PrevSlide eq by (intro exI[of _ ?m]) simp
qed

lemma do_calls_range:
  assumes "totalSlides s = length (slides s)" "currentSlide s = Num k" "0 \<le> k"
    "k < int (length (slides s))" "length (dots s) = length (slides s)"
    "\<forall>c \<in> set cs. from_dot s c"
  shows "totalSlides (do_calls cs s) = length (slides s)
       \<and> length (slides (do_calls cs s)) = length (slides s)
       \<and> length (dots (do_calls cs s)) = length (dots s)
       \<and> (\<exists>m < length (slides s). currentSlide (do_calls cs s) = Num (int m))"
  using assms(6)
proof (induction cs rule: rev_induct)
  case Nil
  have "nat k < length (slides s)" "int (nat k) = k" using assms by simp_all
  then show ?case using assms by (auto intro!: exI[of _ "nat k"])
next
  case (snoc c cs)
  let ?t = "do_calls cs s"
  from snoc obtain m where t: "totalSlides ?t = length (slides s)"
    "length (slides ?t) = length (slides s)" "length (dots ?t) = length (dots s)"
    "m < length (slides s)" "currentSlide ?t = Num (int m)"
    by auto
  have fd: "from_dot ?t c" using snoc.prems t(3) by (cases c) auto
  obtain m' where "m' < length (slides ?t)" "do_call c ?t = goToSlide (Num (int m')) ?t"
    using do_call_index [of ?t "int m" c] t fd assms(5) by auto
  then show ?case using t by (auto simp: do_calls_append goToSlide_fields)
qed

subsection \<open>What \<^verbatim>\<open>goToSlide\<close> establishes for the index of a slide\<close>

lemma goToSlide_invariant:
  assumes "m < length (slides s)" "length (dots s) = length (slides s)"
  shows "filter (\<lambda>i. has_class ''active'' (slides (goToSlide (Num (int m)) s) ! i))
              [0..<length (slides s)] = [m]"
    and "\<forall>i < length (slides s).
           (has_class ''prev'' (slides (goToSlide (Num (int m)) s) ! i) \<longleftrightarrow> i < m)
         \<and> (has_class ''next'' (slides (goToSlide (Num (int m)) s) ! i) \<longleftrightarrow> m < i)"
    and "filter (\<lambda>j. has_class ''active'' (dots (goToSlide (Num (int m)) s) ! j))
              [0..<length (dots s)] = [m]"
proof -
  show "filter (\<lambda>i. has_class ''active'' (slides (goToSlide (Num (int m)) s) ! i))
              [0..<length (slides s)] = [m]"
    using assms(1)
    by (intro filter_upt_single) (simp_all add: goToSlide_slide_nth has_class_update_slide_active)
  show "\<forall>i < length (slides s).
           (has_class ''prev'' (slides (goToSlide (Num (int m)) s) ! i) \<longleftrightarrow> i < m)
         \<and> (has_class ''next'' (slides (goToSlide (Num (int m)) s) ! i) \<longleftrightarrow> m < i)"
    by (auto simp: goToSlide_slide_nth has_class_update_slide_prev has_class_update_slide_next)
  show "filter (\<lambda>j. has_class ''active'' (dots (goToSlide (Num (int m)) s) ! j))
              [0..<length (dots s)] = [m]"
    using assms
    by (intro filter_upt_single) (simp_all add: goToSlide_dot_nth has_class_update_dot)
qed

subsection \<open>Every event changes what the page shows through these calls only\<close>

lemma presentation_goToSlide:
  "presentation (goToSlide k s)
     = (k, forEach (update_slide k) (slides s), forEach (update_dot k) (dots s), totalSlides s)"
  by (simp add: presentation_def goToSlide_def)

lemma presentation_eqD:
  assumes "presentation s = presentation t"
  shows "currentSlide s = currentSlide t" "slides s = slides t" "dots s = dots t"
    "totalSlides s = totalSlides t"
  using assms by (simp_all add: presentation_def)

lemma do_call_cong:
  assumes "presentation s = presentation t"
  shows "presentation (do_call c s) = presentation (do_call c t)"
  using presentation_eqD [OF assms]
  by (cases c) (simp_all add: nextSlide_def prevSlide_def Let_def presentation_goToSlide)

lemma do_calls_cong:
  assumes "presentation s = presentation t"
  shows "presentation (do_calls cs s) = presentation (do_calls cs t)"
  using assms
proof (induction cs arbitrary: s t)
  case Nil
  then show ?case by simp
next
  case (Cons c cs)
  have "presentation (do_call c s) = presentation (do_call c t)"
    using Cons.prems by (rule do_call_cong)
  then have "presentation (do_calls cs (do_call c s)) = presentation (do_calls cs (do_call c t))"
    by (rule Cons.IH)
  then show ?case by simp
qed

lemma do_calls_length_dots: "length (dots (do_calls cs s)) = length (dots s)"
proof (induction cs arbitrary: s)
  case Nil
  then show ?case by simp
next
  case (Cons c cs)
  have "length (dots (do_call c s)) = length (dots s)"
    by (cases c) (simp_all add: nextSlide_def prevSlide_def Let_def goToSlide_fields)
  then show ?case using Cons by simp
qed

lemma from_dot_cong: "length (dots s) = length (dots t) \<Longrightarrow> from_dot s c = from_dot t c"
  by (cases c) simp_all

lemma presentation_restartAutoPlay:
  "presentation (state_of (restartAutoPlay s)) = presentation s"
  by (simp add: presentation_def restartAutoPlay_presentation)

lemma presentation_touchEndX:
  "presentation (nextSlide (s\<lparr>touchEndX := x\<rparr>)) = presentation (nextSlide s)"
  "presentation (prevSlide (s\<lparr>touchEndX := x\<rparr>)) = presentation (prevSlide s)"
  "presentation (s\<lparr>touchEndX := x\<rparr>) = presentation s"
  by (simp_all add: presentation_def nextSlide_def prevSlide_def goToSlide_def Let_def)

lemma fire_is_slide_calls:
  assumes "enabled s e"
  shows "\<exists>cs. list_all (from_dot s) cs
            \<and> presentation (state_of (fire e s)) = presentation (do_calls cs s)"
proof (cases e)
  case (DotClick i)
  then have "list_all (from_dot s) [GoToSlide i]" using assms by simp
  moreover have "presentation (state_of (fire e s)) = presentation (do_calls [GoToSlide i] s)"
    using DotClick by (simp add: dotClick_def presentation_restartAutoPlay)
  ultimately show ?thesis by blast
next
  case (KeyDown k)
  show ?thesis
  proof (cases "k = ''ArrowLeft''")
    case True
    then have "presentation (state_of (fire e s)) = presentation (do_calls [PrevSlide] s)"
      using KeyDown by (simp add: handleKeydown_def presentation_restartAutoPlay)
    moreover have "list_all (from_dot s) [PrevSlide]" by simp
    ultimately show ?thesis by blast
  next
    case False
    show ?thesis
    proof (cases "k = ''ArrowRight''")
      case True
      then have "presentation (state_of (fire e s)) = presentation (do_calls [NextSlide] s)"
        using KeyDown by (simp add: handleKeydown_def presentation_restartAutoPlay)
      moreover have "list_all (from_dot s) [NextSlide]" by simp
      ultimately show ?thesis by blast
    next
      case no: False
      have "handleKeydown k s = Normal s"
        unfolding handleKeydown_def by (simp only: False no if_False)
      then have "presentation (state_of (fire e s)) = presentation (do_calls [] s)"
        using KeyDown by simp
      moreover have "list_all (from_dot s) []" by simp
      ultimately show ?thesis by blast
    qed
  qed
next
  case (TouchStart x)
  then have "presentation (state_of (fire e s)) = presentation (do_calls [] s)"
    by (simp add: handleTouchStart_def presentation_def)
  moreover have "list_all (from_dot s) []" by simp
  ultimately show ?thesis by blast
next
  case (TouchEnd x)
  let ?s2 = "s\<lparr>touchEndX := x\<rparr>"
  let ?d = "touchStartX s - x"
  have r: "handleTouchEnd x s =
      (if SWIPE_THRESHOLD < \<bar>?d\<bar>
       then restartAutoPlay (if 0 < ?d then nextSlide ?s2 else prevSlide ?s2)
       else Normal ?s2)"
    by (simp add: handleTouchEnd_def handleSwipe_def Let_def)
  show ?thesis
  proof (cases "SWIPE_THRESHOLD < \<bar>?d\<bar>")
    case big: True
    show ?thesis
    proof (cases "0 < ?d")
      case True
      have "handleTouchEnd x s = restartAutoPlay (nextSlide ?s2)"
        unfolding r by (simp only: big True if_True)
      then have "presentation (state_of (fire e s)) = presentation (do_calls [NextSlide] s)"
        using TouchEnd by (simp add: presentation_restartAutoPlay presentation_touchEndX)
      moreover have "list_all (from_dot s) [NextSlide]" by simp
      ultimately show ?thesis by blast
    next
      case False
      have "handleTouchEnd x s = restartAutoPlay (prevSlide ?s2)"
        unfolding r by (simp only: big False if_True if_False)
      then have "presentation (state_of (fire e s)) = presentation (do_calls [PrevSlide] s)"
        using TouchEnd by (simp add: presentation_restartAutoPlay presentation_touchEndX)
      moreover have "list_all (from_dot s) [PrevSlide]" by simp
      ultimately show ?thesis by blast
    qed
  next
    case False
    have "handleTouchEnd x s = Normal ?s2"
      unfolding r by (simp only: False if_False)
    then have "presentation (state_of (fire e s)) = presentation (do_calls [] s)"
      using TouchEnd by (simp add: presentation_touchEndX)
    moreover have "list_all (from_dot s) []" by simp
    ultimately show ?thesis by blast
  qed
next
  case (VisibilityChange hidden)
  then have "presentation (state_of (fire e s)) = presentation (do_calls [] s)"
    by (simp add: handleVisibilityChange_def presentation_def stopAutoPlay_def
        startAutoPlay_def schedule_def clearInterval_def split: option.splits)
  moreover have "list_all (from_dot s) []" by simp
  ultimately show ?thesis by blast
next
  case (IntervalFires h)
  then have "presentation (state_of (fire e s)) = presentation (do_calls [NextSlide] s)"
    by (simp add: intervalCallback_def)
  moreover have "list_all (from_dot s) [NextSlide]" by simp
  ultimately show ?thesis by blast
next
  case (TimeoutFires h)
  then have "presentation (state_of (fire e s)) = presentation (do_calls [] s)"
    by (simp add: timeoutCallback_def clearInterval_def presentation_def split: option.splits)
  moreover have "list_all (from_dot s) []" by simp
  ultimately show ?thesis by blast
qed

lemma run_events_is_slide_calls:
  "\<exists>cs. list_all (from_dot s) cs
        \<and> presentation (run_events es s) = presentation (do_calls cs s)"
proof (induction es arbitrary: s)
  case Nil
  have "list_all (from_dot s) []" by simp
  moreover have "presentation (run_events [] s) = presentation (do_calls [] s)" by simp
  ultimately show ?case by blast
next
  case (Cons e es)
  let ?s1 = "if enabled s e then state_of (fire e s) else s"
  obtain c1 where c1: "list_all (from_dot s) c1"
      "presentation ?s1 = presentation (do_calls c1 s)"
  proof (cases "enabled s e")
    case True
    then show ?thesis using fire_is_slide_calls [OF True] that by auto
  next
    case False
    have "list_all (from_dot s) []" by simp
    moreover have "presentation ?s1 = presentation (do_calls [] s)" using False by simp
    ultimately show ?thesis using that by blast
  qed
  obtain c2 where c2: "list_all (from_dot ?s1) c2"
      "presentation (run_events es ?s1) = presentation (do_calls c2 ?s1)"
    using Cons.IH [of ?s1] by blast
  have "length (dots ?s1) = length (dots s)"
    using presentation_eqD(3) [OF c1(2)] by (simp only: do_calls_length_dots)
  then have "list_all (from_dot s) c2"
    using c2(1) from_dot_cong [of ?s1 s] by (simp add: list_all_iff)
  then have a: "list_all (from_dot s) (c1 @ c2)" using c1(1) by simp
  have "presentation (do_calls c2 ?s1) = presentation (do_calls c2 (do_calls c1 s))"
    using c1(2) by (rule do_calls_cong)
  then have b: "presentation (run_events (e # es) s) = presentation (do_calls (c1 @ c2) s)"
    using c2(2) by (simp add: do_calls_append)
  show ?case using a b by blast
qed

subsection \<open>The deck after a call\<close>

lemma shows_slide_cong:
  assumes "presentation s = presentation t"
  shows "shows_slide m s = shows_slide m t"
  using presentation_eqD [OF assms] by (simp add: shows_slide_def)

lemma shows_slide_goToSlide:
  assumes "m < length (slides s)" "length (dots s) = length (slides s)"
  shows "shows_slide m (goToSlide (Num (int m)) s)"
proof -
  let ?t = "goToSlide (Num (int m)) s"
  have len: "length (slides ?t) = length (slides s)" "length (dots ?t) = length (slides s)"
    using assms(2) by (simp_all add: goToSlide_fields)
  have "list_all (\<lambda>i. has_class ''prev'' (slides ?t ! i) = (i < m)
                    \<and> has_class ''next'' (slides ?t ! i) = (m < i)) [0..<length (slides s)]"
    using goToSlide_invariant(2) [OF assms] by (simp add: list_all_iff)
  then show ?thesis
    using assms(1) goToSlide_invariant(1,3) [OF assms]
    unfolding shows_slide_def len by (simp add: goToSlide_fields assms(2))
qed

lemma shows_slide_after_calls:
  assumes "1 \<le> length ribbon_items" and "length nav_dots = length ribbon_items"
    and "s0 = new_RibbonSlider ribbon_items nav_dots bar h0"
    and "list_all (from_dot s0) cs" and "cs \<noteq> []"
  shows "\<exists>m. shows_slide m (do_calls cs s0)"
    and "length (slides (do_calls cs s0)) = length ribbon_items"
    and "length (dots (do_calls cs s0)) = length ribbon_items"
proof -
  obtain cs' c where cs: "cs = cs' @ [c]"
    using assms(5) by (cases cs rule: rev_cases) auto
  have s0: "totalSlides s0 = length (slides s0)" "currentSlide s0 = Num 0"
    "slides s0 = ribbon_items" "dots s0 = nav_dots"
    by (simp_all add: assms(3) new_RibbonSlider_def init_def startAutoPlay_def schedule_def)
  have "0 < length (slides s0)" unfolding s0(3) using assms(1) by linarith
  then have len: "(0::int) < int (length (slides s0))" "length (dots s0) = length (slides s0)"
    using assms(2) s0 by simp_all
  let ?t = "do_calls cs' s0"
  have all: "\<forall>c \<in> set cs. from_dot s0 c" using assms(4) by (simp add: list_all_iff)
  then have "\<forall>c \<in> set cs'. from_dot s0 c" using cs by simp
  from do_calls_range [OF s0(1) s0(2) _ len(1) len(2) this]
  obtain k where t: "totalSlides ?t = length (slides s0)"
    "length (slides ?t) = length (slides s0)" "length (dots ?t) = length (dots s0)"
    "k < length (slides s0)" "currentSlide ?t = Num (int k)"
    by auto
  have fd: "from_dot ?t c" using all cs t(3) by (cases c) auto
  obtain m where m: "m < length (slides ?t)" "do_call c ?t = goToSlide (Num (int m)) ?t"
    using do_call_index [of ?t "int k" c] t fd len(2) by auto
  have dl: "length (dots ?t) = length (slides ?t)" using t len by simp
  have fin: "do_calls cs s0 = goToSlide (Num (int m)) ?t"
    using cs m by (simp add: do_calls_append)
  show "\<exists>m. shows_slide m (do_calls cs s0)"
    unfolding fin using shows_slide_goToSlide [OF m(1) dl] by blast
  show "length (slides (do_calls cs s0)) = length ribbon_items"
    unfolding fin using t(2) s0(3) by (simp add: goToSlide_fields)
  show "length (dots (do_calls cs s0)) = length ribbon_items"
    unfolding fin using t(3) s0(4) assms(2) by (simp add: goToSlide_fields)
qed

text \<open>
  Claim C1 says that in every reachable state exactly one slide is active and the
  slides around it carry \<^verbatim>\<open>prev\<close> and \<^verbatim>\<open>next\<close>. The constructor calls neither
  \<^verbatim>\<open>goToSlide\<close> nor anything else that writes a class, so until the first call the
  slides carry what the markup gives them. The sample page, as constructed and after the
  empty sequence of calls, has \<^verbatim>\<open>currentSlide\<close> 0 and the first slide active, but
  slides 1 and 2 do not carry \<^verbatim>\<open>next\<close>; the page whose markup has no
  \<^verbatim>\<open>active\<close> class still has no active slide after a touch start and two
  visibility changes.
\<close>

theorem markup_before_first_call_counterexample:
  "do_calls [] sample = sample
   \<and> run_events [] sample = sample
   \<and> currentSlide sample = Num 0
   \<and> \<not> has_class ''next'' (slides sample ! 1)
   \<and> \<not> has_class ''next'' (slides sample ! 2)
   \<and> \<not> shows_slide 0 sample \<and> \<not> shows_slide 1 sample \<and> \<not> shows_slide 2 sample
   \<and> currentSlide
        (run_events [TouchStart 10, VisibilityChange True, VisibilityChange False] sample_unmarked)
       = Num 0
   \<and> filter (has_class ''active'')
        (slides (run_events [TouchStart 10, VisibilityChange True, VisibilityChange False]
                   sample_unmarked))
       = []"
  by code_simp

text \<open>
  Claim C1, amended. Take a slider built over at least one slide, with as many dots as slides.
  After any sequence of at least one call of \<^verbatim>\<open>goToSlide\<close> (from the click
  listener of a dot), \<^verbatim>\<open>nextSlide\<close> or \<^verbatim>\<open>prevSlide\<close>, \<^verbatim>\<open>currentSlide\<close> is
  the index \<open>m\<close> of a slide, slide \<open>m\<close> is the only one that carries \<^verbatim>\<open>active\<close>,
  the slides that carry \<^verbatim>\<open>prev\<close> are exactly those before \<open>m\<close>, the slides that
  carry \<^verbatim>\<open>next\<close> exactly those after \<open>m\<close>, and dot \<open>m\<close> is the only dot that
  carries \<^verbatim>\<open>active\<close>. The same holds in every state that the events reach from the
  constructed slider, except while no call has been made yet: until then the slides and
  dots carry the classes of the page's markup, which the constructor does not touch.
\<close>

theorem one_active_slide:
  assumes "1 \<le> length ribbon_items" and "length nav_dots = length ribbon_items"
    and "s0 = new_RibbonSlider ribbon_items nav_dots bar h0"
  shows "(cs \<noteq> [] \<and> list_all (from_dot s0) cs \<longrightarrow>
            (\<exists>m. shows_slide m (do_calls cs s0))
          \<and> length (slides (do_calls cs s0)) = length ribbon_items
          \<and> length (dots (do_calls cs s0)) = length ribbon_items)
       \<and> (presentation (run_events es s0) = presentation s0
            \<or> (\<exists>m. shows_slide m (run_events es s0)))"
proof -
  have calls: "cs \<noteq> [] \<and> list_all (from_dot s0) cs \<longrightarrow>
            (\<exists>m. shows_slide m (do_calls cs s0))
          \<and> length (slides (do_calls cs s0)) = length ribbon_items
          \<and> length (dots (do_calls cs s0)) = length ribbon_items"
    using shows_slide_after_calls [OF assms] by blast
  obtain ds where ds: "list_all (from_dot s0) ds"
      "presentation (run_events es s0) = presentation (do_calls ds s0)"
    using run_events_is_slide_calls [of s0 es] by blast
  have events: "presentation (run_events es s0) = presentation s0
            \<or> (\<exists>m. shows_slide m (run_events es s0))"
  proof (cases "ds = []")
    case True
    then show ?thesis using ds(2) by simp
  next
    case False
    obtain m where "shows_slide m (do_calls ds s0)"
      using shows_slide_after_calls(1) [OF assms ds(1) False] by blast
    then have "shows_slide m (run_events es s0)"
      using shows_slide_cong [OF ds(2)] by simp
    then show ?thesis by blast
  qed
  show ?thesis using calls events by blast
qed

text \<open>On the sample page: next, then the third dot, then previous; and the events of a
  right-arrow key followed by a click on the third dot.\<close>

theorem one_active_slide_witness:
  "1 \<le> length sample_slides \<and> length sample_dots = length sample_slides
   \<and> [NextSlide, GoToSlide 2, PrevSlide] \<noteq> []
   \<and> list_all (from_dot sample) [NextSlide, GoToSlide 2, PrevSlide]
   \<and> (\<exists>m. shows_slide m (do_calls [NextSlide, GoToSlide 2, PrevSlide] sample))
   \<and> shows_slide 1 (do_calls [NextSlide, GoToSlide 2, PrevSlide] sample)
   \<and> length (slides (do_calls [NextSlide, GoToSlide 2, PrevSlide] sample)) = length sample_slides
   \<and> length (dots (do_calls [NextSlide, GoToSlide 2, PrevSlide] sample)) = length sample_slides
   \<and> (presentation (run_events [KeyDown ''ArrowRight'', DotClick 2] sample) = presentation sample
        \<or> (\<exists>m. shows_slide m (run_events [KeyDown ''ArrowRight'', DotClick 2] sample)))
   \<and> shows_slide 2 (run_events [KeyDown ''ArrowRight'', DotClick 2] sample)"
proof -
  have a: "1 \<le> length sample_slides" by (simp add: sample_slides_def)
  have b: "length sample_dots = length sample_slides"
    by (simp add: sample_slides_def sample_dots_def)
  have c: "list_all (from_dot sample) [NextSlide, GoToSlide 2, PrevSlide]"
    by (simp add: sample_defs)
  have d: "[NextSlide, GoToSlide 2, PrevSlide] \<noteq> []" by simp
  have e: "shows_slide 1 (do_calls [NextSlide, GoToSlide 2, PrevSlide] sample)"
    by (simp add: shows_slide_def sample_defs nextSlide_def prevSlide_def goToSlide_def
        forEach_def update_slide_def update_dot_def classList_add_def classList_remove_def
        classList_toggle_def has_class_def upt_rec)
  have f: "shows_slide 2 (run_events [KeyDown ''ArrowRight'', DotClick 2] sample)"
    by code_simp
  note T = one_active_slide [OF a b sample_def,
      of "[NextSlide, GoToSlide 2, PrevSlide]" "[KeyDown ''ArrowRight'', DotClick 2]"]
  show ?thesis using a b c d e f T by blast
qed

section \<open>Idempotence of \<^verbatim>\<open>goToSlide\<close>\<close>

text \<open>A state whose slides, dots and index were last written by \<^verbatim>\<open>goToSlide\<close>,
  whatever happened to the timers and the touch coordinates since, is a fixed point of
  \<^verbatim>\<open>goToSlide(currentSlide)\<close>.\<close>

lemma goToSlide_fixes_written_state:
  assumes "presentation s = presentation (goToSlide k t)"
  shows "goToSlide (currentSlide s) s = s"
proof -
  have c: "currentSlide s = k" and sl: "slides s = slides (goToSlide k t)"
    and d: "dots s = dots (goToSlide k t)"
    using presentation_eqD [OF assms] by (simp_all add: goToSlide_fields)
  have "forEach (update_slide k) (slides s) = slides s"
    unfolding sl by (simp add: goToSlide_def forEach_idem update_slide_idem)
  moreover have "forEach (update_dot k) (dots s) = dots s"
    unfolding d by (simp add: goToSlide_def forEach_idem update_dot_idem)
  ultimately show ?thesis
    using c by (simp add: goToSlide_def)
qed

lemma do_call_is_goToSlide: "\<exists>k. do_call c s = goToSlide k s"
  by (cases c) (auto simp: nextSlide_def prevSlide_def Let_def)

lemma do_calls_is_goToSlide:
  assumes "cs \<noteq> []"
  shows "\<exists>k t. do_calls cs s = goToSlide k t"
proof -
  obtain cs' c where "cs = cs' @ [c]"
    using assms by (cases cs rule: rev_cases) auto
  then have "do_calls cs s = do_call c (do_calls cs' s)"
    by (simp add: do_calls_append)
  then show ?thesis
    using do_call_is_goToSlide [of c "do_calls cs' s"] by auto
qed

text \<open>
  Claim C7. The classes of the slides and dots are determined by \<^verbatim>\<open>currentSlide\<close>:
  calling \<^verbatim>\<open>goToSlide\<close> a second time with the same index changes nothing, and in
  every state reached by calls of \<^verbatim>\<open>goToSlide\<close>, \<^verbatim>\<open>nextSlide\<close> and
  \<^verbatim>\<open>prevSlide\<close>, or by events once one of them has made such a call,
  \<^verbatim>\<open>goToSlide(currentSlide)\<close> leaves the whole state as it is: no slide class, no
  dot, not \<^verbatim>\<open>currentSlide\<close>, nor any other field changes.
\<close>

theorem goToSlide_idempotent:
  "goToSlide k (goToSlide k s) = goToSlide k s
   \<and> (cs \<noteq> [] \<longrightarrow> goToSlide (currentSlide (do_calls cs s)) (do_calls cs s) = do_calls cs s)
   \<and> (presentation (run_events es s) = presentation s
        \<or> goToSlide (currentSlide (run_events es s)) (run_events es s) = run_events es s)"
proof -
  have twice: "goToSlide k (goToSlide k s) = goToSlide k s"
    using goToSlide_fixes_written_state [of "goToSlide k s" k s]
    by (simp add: goToSlide_fields)
  have calls: "cs \<noteq> [] \<longrightarrow>
      goToSlide (currentSlide (do_calls cs s)) (do_calls cs s) = do_calls cs s"
  proof
    assume "cs \<noteq> []"
    then obtain j t where "do_calls cs s = goToSlide j t"
      using do_calls_is_goToSlide by blast
    then have "presentation (do_calls cs s) = presentation (goToSlide j t)" by simp
    then show "goToSlide (currentSlide (do_calls cs s)) (do_calls cs s) = do_calls cs s"
      by (rule goToSlide_fixes_written_state)
  qed
  obtain ds where ds: "presentation (run_events es s) = presentation (do_calls ds s)"
    using run_events_is_slide_calls [of s es] by blast
  have events: "presentation (run_events es s) = presentation s
        \<or> goToSlide (currentSlide (run_events es s)) (run_events es s) = run_events es s"
  proof (cases "ds = []")
    case True
    then show ?thesis using ds by simp
  next
    case False
    then obtain j t where "do_calls ds s = goToSlide j t"
      using do_calls_is_goToSlide by blast
    then have "presentation (run_events es s) = presentation (goToSlide j t)"
      using ds by simp
    then have "goToSlide (currentSlide (run_events es s)) (run_events es s) = run_events es s"
      by (rule goToSlide_fixes_written_state)
    then show ?thesis by blast
  qed
  show ?thesis using twice calls events by blast
qed

text \<open>On the sample page, after next and a jump to the third slide.\<close>

theorem goToSlide_idempotent_witness:
  "[NextSlide, GoToSlide 2] \<noteq> []
   \<and> currentSlide (do_calls [NextSlide, GoToSlide 2] sample) = Num 2
   \<and> goToSlide (Num 2) (do_calls [NextSlide, GoToSlide 2] sample)
       = do_calls [NextSlide, GoToSlide 2] sample
   \<and> goToSlide (Num 1) (goToSlide (Num 1) sample) = goToSlide (Num 1) sample"
proof -
  have a: "[NextSlide, GoToSlide 2] \<noteq> []" by simp
  have b: "currentSlide (do_calls [NextSlide, GoToSlide 2] sample) = Num 2"
    by (simp add: goToSlide_fields)
  note T = goToSlide_idempotent [of "Num 1" sample "[NextSlide, GoToSlide 2]" "[]"]
  have "goToSlide (currentSlide (do_calls [NextSlide, GoToSlide 2] sample))
          (do_calls [NextSlide, GoToSlide 2] sample)
        = do_calls [NextSlide, GoToSlide 2] sample"
    using T a by blast
  then have c: "goToSlide (Num 2) (do_calls [NextSlide, GoToSlide 2] sample)
       = do_calls [NextSlide, GoToSlide 2] sample"
    by (simp only: b)
  have d: "goToSlide (Num 1) (goToSlide (Num 1) sample) = goToSlide (Num 1) sample"
    using T by blast
  show ?thesis using a b c d by blast
qed

section \<open>Restarting autoplay\<close>

subsection \<open>Timer facts\<close>

lemmas timer_defs = restartAutoPlay_def restartProgressBar_def startAutoPlay_def
  stopAutoPlay_def schedule_def clearInterval_def

lemma progressBar_kept:
  "progressBar (goToSlide k s) = progressBar s"
  "progressBar (nextSlide s) = progressBar s"
  "progressBar (prevSlide s) = progressBar s"
  "progressBar (stopAutoPlay s) = progressBar s"
  "progressBar (startAutoPlay s) = progressBar s"
  by (simp_all add: goToSlide_def nextSlide_def prevSlide_def Let_def timer_defs
      split: option.splits)

lemma restartAutoPlay_no_bar:
  "progressBar s = None \<Longrightarrow> restartAutoPlay s = Throw TypeError (startAutoPlay (stopAutoPlay s))"
  by (simp add: restartAutoPlay_def restartProgressBar_def progressBar_kept)

lemma startAutoPlay_pending:
  "autoPlayInterval (startAutoPlay s) = Some (next_handle s)"
  "pending_advances (startAutoPlay s) = pending_advances s @ [next_handle s]"
  "pending_animations (startAutoPlay s) = pending_animations s"
  by (simp_all add: startAutoPlay_def schedule_def pending_advances_def pending_animations_def)

subsection \<open>A page without the progress bar\<close>

text \<open>
  Claim C10. \<^verbatim>\<open>restartAutoPlay\<close> reads \<^verbatim>\<open>this.progressBar.style\<close> without a
  check. When the page has no progress-fill element, \<^verbatim>\<open>restartAutoPlay\<close> throws a
  \<^verbatim>\<open>TypeError\<close>, and it does so after the timer has been restarted: the state at
  the throw is the one after \<^verbatim>\<open>stopAutoPlay\<close> and \<^verbatim>\<open>startAutoPlay\<close>, with a
  fresh pending advance. So a dot click, an arrow key and a swipe above the threshold
  each change the slide, restart the timer and then throw.
\<close>

theorem restartAutoPlay_throws_without_progress_bar:
  assumes "progressBar s = None"
  shows "restartAutoPlay s = Throw TypeError (startAutoPlay (stopAutoPlay s))
    \<and> autoPlayInterval (state_of (restartAutoPlay s)) = Some (next_handle s)
    \<and> next_handle s \<in> set (pending_advances (state_of (restartAutoPlay s)))
    \<and> dotClick i s = Throw TypeError (startAutoPlay (stopAutoPlay (goToSlide (Num (int i)) s)))
    \<and> handleKeydown ''ArrowLeft'' s = Throw TypeError (startAutoPlay (stopAutoPlay (prevSlide s)))
    \<and> handleKeydown ''ArrowRight'' s = Throw TypeError (startAutoPlay (stopAutoPlay (nextSlide s)))
    \<and> (50 < \<bar>touchStartX s - x\<bar> \<longrightarrow>
          handleTouchEnd x s =
            Throw TypeError (startAutoPlay (stopAutoPlay
              (if 0 < touchStartX s - x then nextSlide (s\<lparr>touchEndX := x\<rparr>)
               else prevSlide (s\<lparr>touchEndX := x\<rparr>)))))"
proof -
  have r: "restartAutoPlay s = Throw TypeError (startAutoPlay (stopAutoPlay s))"
    using assms by (rule restartAutoPlay_no_bar)
  have h: "next_handle (stopAutoPlay s) = next_handle s"
    by (simp add: stopAutoPlay_def clearInterval_def split: option.splits)
  have d: "dotClick i s = Throw TypeError (startAutoPlay (stopAutoPlay (goToSlide (Num (int i)) s)))"
    using assms by (simp add: dotClick_def restartAutoPlay_no_bar progressBar_kept)
  have kl: "handleKeydown ''ArrowLeft'' s = Throw TypeError (startAutoPlay (stopAutoPlay (prevSlide s)))"
    using assms by (simp add: handleKeydown_def restartAutoPlay_no_bar progressBar_kept)
  have kr: "handleKeydown ''ArrowRight'' s = Throw TypeError (startAutoPlay (stopAutoPlay (nextSlide s)))"
    using assms by (simp add: handleKeydown_def restartAutoPlay_no_bar progressBar_kept)
  have sw: "50 < \<bar>touchStartX s - x\<bar> \<longrightarrow>
          handleTouchEnd x s =
            Throw TypeError (startAutoPlay (stopAutoPlay
              (if 0 < touchStartX s - x then nextSlide (s\<lparr>touchEndX := x\<rparr>)
               else prevSlide (s\<lparr>touchEndX := x\<rparr>))))"
    using assms
    by (simp add: handleTouchEnd_def handleSwipe_def SWIPE_THRESHOLD_def Let_def
        restartAutoPlay_no_bar progressBar_kept)
  show ?thesis
    using r d kl kr sw by (simp add: startAutoPlay_pending h)
qed

text \<open>On the sample page without the bar, after a touch has started at 300.\<close>

theorem restartAutoPlay_throws_without_progress_bar_witness:
  "progressBar (handleTouchStart 300 sample_no_bar) = None
   \<and> 50 < \<bar>touchStartX (handleTouchStart 300 sample_no_bar) - 200\<bar>
   \<and> threw (restartAutoPlay (handleTouchStart 300 sample_no_bar))
   \<and> threw (dotClick 1 (handleTouchStart 300 sample_no_bar))
   \<and> threw (handleKeydown ''ArrowLeft'' (handleTouchStart 300 sample_no_bar))
   \<and> threw (handleKeydown ''ArrowRight'' (handleTouchStart 300 sample_no_bar))
   \<and> threw (handleTouchEnd 200 (handleTouchStart 300 sample_no_bar))
   \<and> autoPlayInterval (handleTouchStart 300 sample_no_bar) = Some 1
   \<and> autoPlayInterval (state_of (restartAutoPlay (handleTouchStart 300 sample_no_bar)))
       = Some 2"
proof -
  let ?t = "handleTouchStart 300 sample_no_bar"
  have a: "progressBar ?t = None"
    by (simp add: sample_defs handleTouchStart_def)
  have b: "50 < \<bar>touchStartX ?t - 200\<bar>"
    by (simp add: handleTouchStart_def)
  have c: "autoPlayInterval ?t = Some 1" "next_handle ?t = 2"
    by (simp_all add: sample_defs handleTouchStart_def)
  note t = restartAutoPlay_throws_without_progress_bar [OF a, of 1 200]
  have "threw (restartAutoPlay ?t)" using t by simp
  moreover have "threw (dotClick 1 ?t)" using t by simp
  moreover have "threw (handleKeydown ''ArrowLeft'' ?t)" using t by simp
  moreover have "threw (handleKeydown ''ArrowRight'' ?t)" using t by simp
  moreover have "threw (handleTouchEnd 200 ?t)" using t b by simp
  moreover have "autoPlayInterval (state_of (restartAutoPlay ?t)) = Some 2"
    using conjunct1 [OF conjunct2 [OF t]] unfolding c(2) .
  ultimately show ?thesis using a b c(1) by simp
qed

section \<open>Swipes\<close>

subsection \<open>Fields that the slide calls and the timer calls leave alone\<close>

lemma slide_calls_frame:
  "next_handle (goToSlide k s) = next_handle s"
  "next_handle (nextSlide s) = next_handle s"
  "next_handle (prevSlide s) = next_handle s"
  "timers (goToSlide k s) = timers s"
  "timers (nextSlide s) = timers s"
  "timers (prevSlide s) = timers s"
  "autoPlayInterval (goToSlide k s) = autoPlayInterval s"
  "autoPlayInterval (nextSlide s) = autoPlayInterval s"
  "autoPlayInterval (prevSlide s) = autoPlayInterval s"
  "touchStartX (goToSlide k s) = touchStartX s"
  "touchStartX (nextSlide s) = touchStartX s"
  "touchStartX (prevSlide s) = touchStartX s"
  by (simp_all add: goToSlide_def nextSlide_def prevSlide_def Let_def)

lemma touch_coordinates_ignored:
  "currentSlide (nextSlide (s\<lparr>touchStartX := a, touchEndX := b\<rparr>)) = currentSlide (nextSlide s)"
  "currentSlide (prevSlide (s\<lparr>touchStartX := a, touchEndX := b\<rparr>)) = currentSlide (prevSlide s)"
  "slides (nextSlide (s\<lparr>touchStartX := a, touchEndX := b\<rparr>)) = slides (nextSlide s)"
  "slides (prevSlide (s\<lparr>touchStartX := a, touchEndX := b\<rparr>)) = slides (prevSlide s)"
  "dots (nextSlide (s\<lparr>touchStartX := a, touchEndX := b\<rparr>)) = dots (nextSlide s)"
  "dots (prevSlide (s\<lparr>touchStartX := a, touchEndX := b\<rparr>)) = dots (prevSlide s)"
  by (simp_all add: goToSlide_def nextSlide_def prevSlide_def Let_def)

lemma stopAutoPlay_next_handle: "next_handle (stopAutoPlay s) = next_handle s"
  by (simp add: stopAutoPlay_def clearInterval_def split: option.splits)

lemma restartProgressBar_pending:
  "pending_advances (state_of (restartProgressBar s)) = pending_advances s"
  "autoPlayInterval (state_of (restartProgressBar s)) = autoPlayInterval s"
  by (simp_all add: restartProgressBar_def schedule_def pending_advances_def split: option.splits)

lemma clearInterval_pending:
  "pending_advances (clearInterval h s) = filter (\<lambda>x. x \<noteq> h) (pending_advances s)"
  by (simp add: clearInterval_def pending_advances_def filter_map comp_def conj_commute)

lemma stopAutoPlay_pending:
  assumes "autoPlayInterval s = Some h" "h \<noteq> 0"
  shows "pending_advances (stopAutoPlay s) = filter (\<lambda>x. x \<noteq> h) (pending_advances s)"
  using assms by (simp add: stopAutoPlay_def clearInterval_pending)

lemma restartAutoPlay_timer:
  "autoPlayInterval (state_of (restartAutoPlay s)) = Some (next_handle s)"
  "pending_advances (state_of (restartAutoPlay s))
     = pending_advances (stopAutoPlay s) @ [next_handle s]"
  by (simp_all add: restartAutoPlay_def restartProgressBar_pending startAutoPlay_pending
      stopAutoPlay_next_handle)

lemma restartAutoPlay_cancels:
  assumes "autoPlayInterval t = Some h" "h \<noteq> 0"
  shows "pending_advances (state_of (restartAutoPlay t))
           = filter (\<lambda>x. x \<noteq> h) (pending_advances t) @ [next_handle t]"
  using assms by (simp add: restartAutoPlay_timer stopAutoPlay_pending)

lemma swipe_call_timers:
  "pending_advances (nextSlide (s\<lparr>touchStartX := a, touchEndX := b\<rparr>)) = pending_advances s"
  "pending_advances (prevSlide (s\<lparr>touchStartX := a, touchEndX := b\<rparr>)) = pending_advances s"
  "autoPlayInterval (nextSlide (s\<lparr>touchStartX := a, touchEndX := b\<rparr>)) = autoPlayInterval s"
  "autoPlayInterval (prevSlide (s\<lparr>touchStartX := a, touchEndX := b\<rparr>)) = autoPlayInterval s"
  "next_handle (nextSlide (s\<lparr>touchStartX := a, touchEndX := b\<rparr>)) = next_handle s"
  "next_handle (prevSlide (s\<lparr>touchStartX := a, touchEndX := b\<rparr>)) = next_handle s"
  "presentation (nextSlide (s\<lparr>touchStartX := a, touchEndX := b\<rparr>)) = presentation (nextSlide s)"
  "presentation (prevSlide (s\<lparr>touchStartX := a, touchEndX := b\<rparr>)) = presentation (prevSlide s)"
  by (simp_all add: pending_advances_def presentation_def nextSlide_def prevSlide_def
      goToSlide_def Let_def)

lemma nextSlide_shows:
  assumes "currentSlide s = Num k" "0 \<le> k" "k < int (length (slides s))"
    "totalSlides s = length (slides s)" "length (dots s) = length (slides s)"
  shows "shows_slide (nat ((k + 1) mod int (length (slides s)))) (nextSlide s)"
proof -
  have pos: "0 < length (slides s)" using assms(2,3) by linarith
  let ?m = "nat ((k + 1) mod int (length (slides s)))"
  have m: "?m < length (slides s)" "int ?m = (k + 1) mod int (length (slides s))"
    using index_mod [OF pos, of "k + 1"] by simp_all
  have "0 \<le> k + 1" using assms(2) by simp
  then have "js_mod (Num (k + 1)) (Num (int (length (slides s))))
               = Num ((k + 1) mod int (length (slides s)))"
    using pos by (intro js_mod_nonneg) simp_all
  then have "nextSlide s = goToSlide (Num (int ?m)) s"
    using assms(1,4) m(2) by (simp add: nextSlide_def del: js_mod.simps)
  then show ?thesis
    using shows_slide_goToSlide [OF m(1) assms(5)] by simp
qed

lemma prevSlide_shows:
  assumes "currentSlide s = Num k" "0 \<le> k" "k < int (length (slides s))"
    "totalSlides s = length (slides s)" "length (dots s) = length (slides s)"
  shows "shows_slide (nat ((k - 1) mod int (length (slides s)))) (prevSlide s)"
proof -
  have pos: "0 < length (slides s)" using assms(2,3) by linarith
  let ?m = "nat ((k - 1) mod int (length (slides s)))"
  have m: "?m < length (slides s)" "int ?m = (k - 1) mod int (length (slides s))"
    using index_mod [OF pos, of "k - 1"] by simp_all
  have "0 \<le> k - 1 + int (length (slides s))" using assms(2) pos by linarith
  then have "js_mod (Num (k - 1 + int (length (slides s)))) (Num (int (length (slides s))))
               = Num ((k - 1 + int (length (slides s))) mod int (length (slides s)))"
    using pos by (intro js_mod_nonneg) simp_all
  then have "prevSlide s = goToSlide (Num (int ?m)) s"
    using assms(1,4) m(2) by (simp add: prevSlide_def del: js_mod.simps)
  then show ?thesis
    using shows_slide_goToSlide [OF m(1) assms(5)] by simp
qed

subsection \<open>The threshold\<close>

text \<open>
  Claim C3. For a touch that starts at \<open>startX\<close> and ends at \<open>endX\<close>, with
  \<open>diff = startX - endX\<close>: if \<open>\<bar>diff\<bar> > 50\<close> the handler calls \<^verbatim>\<open>nextSlide\<close> when
  \<open>diff > 0\<close> and \<^verbatim>\<open>prevSlide\<close> when \<open>diff < 0\<close>, and then restarts autoplay. The
  slider advances: from index \<open>k\<close> of \<open>n\<close> slides the deck shows slide
  \<open>(k + 1) mod n\<close>, and after a retreat slide \<open>(k - 1) mod n\<close>. The timer is
  restarted: the advance under the stored handle is cancelled, a fresh one is pending
  and its handle is the stored one. If \<open>\<bar>diff\<bar> \<le> 50\<close> the handler only records the two
  coordinates: the current slide, the classes, the timers and the stored handle are
  unchanged.
\<close>

theorem swipe_threshold:
  "(let s1 = handleTouchStart startX s;
        s2 = s\<lparr>touchStartX := startX, touchEndX := endX\<rparr>;
        r = handleTouchEnd endX s1;
        diff = startX - endX;
        n = int (length (slides s))
    in (50 < \<bar>diff\<bar> \<and> 0 < diff \<longrightarrow>
          r = restartAutoPlay (nextSlide s2)
        \<and> currentSlide (state_of r) = currentSlide (nextSlide s)
        \<and> slides (state_of r) = slides (nextSlide s)
        \<and> dots (state_of r) = dots (nextSlide s)
        \<and> autoPlayInterval (state_of r) = Some (next_handle s)
        \<and> next_handle s \<in> set (pending_advances (state_of r))
        \<and> (\<forall>h. autoPlayInterval s = Some h \<and> h \<noteq> 0 \<longrightarrow>
              pending_advances (state_of r)
                = filter (\<lambda>x. x \<noteq> h) (pending_advances s) @ [next_handle s])
        \<and> (\<forall>k. currentSlide s = Num k \<and> 0 \<le> k \<and> k < n \<and> totalSlides s = length (slides s)
                \<and> length (dots s) = length (slides s) \<longrightarrow>
              shows_slide (nat ((k + 1) mod n)) (state_of r)))
     \<and> (50 < \<bar>diff\<bar> \<and> diff < 0 \<longrightarrow>
          r = restartAutoPlay (prevSlide s2)
        \<and> currentSlide (state_of r) = currentSlide (prevSlide s)
        \<and> slides (state_of r) = slides (prevSlide s)
        \<and> dots (state_of r) = dots (prevSlide s)
        \<and> autoPlayInterval (state_of r) = Some (next_handle s)
        \<and> next_handle s \<in> set (pending_advances (state_of r))
        \<and> (\<forall>h. autoPlayInterval s = Some h \<and> h \<noteq> 0 \<longrightarrow>
              pending_advances (state_of r)
                = filter (\<lambda>x. x \<noteq> h) (pending_advances s) @ [next_handle s])
        \<and> (\<forall>k. currentSlide s = Num k \<and> 0 \<le> k \<and> k < n \<and> totalSlides s = length (slides s)
                \<and> length (dots s) = length (slides s) \<longrightarrow>
              shows_slide (nat ((k - 1) mod n)) (state_of r)))
     \<and> (\<bar>diff\<bar> \<le> 50 \<longrightarrow>
          r = Normal s2
        \<and> currentSlide (state_of r) = currentSlide s
        \<and> slides (state_of r) = slides s
        \<and> dots (state_of r) = dots s
        \<and> autoPlayInterval (state_of r) = autoPlayInterval s
        \<and> timers (state_of r) = timers s
        \<and> progressBar (state_of r) = progressBar s))"
proof -
  let ?s2 = "s\<lparr>touchStartX := startX, touchEndX := endX\<rparr>"
  let ?r = "handleTouchEnd endX (handleTouchStart startX s)"
  let ?n = "int (length (slides s))"
  have r: "?r = (if 50 < \<bar>startX - endX\<bar>
                then restartAutoPlay (if 0 < startX - endX then nextSlide ?s2 else prevSlide ?s2)
                else Normal ?s2)"
    by (simp add: handleTouchEnd_def handleTouchStart_def handleSwipe_def SWIPE_THRESHOLD_def
        Let_def)
  have adv: "50 < \<bar>startX - endX\<bar> \<and> 0 < startX - endX \<longrightarrow>
          ?r = restartAutoPlay (nextSlide ?s2)
        \<and> currentSlide (state_of ?r) = currentSlide (nextSlide s)
        \<and> slides (state_of ?r) = slides (nextSlide s)
        \<and> dots (state_of ?r) = dots (nextSlide s)
        \<and> autoPlayInterval (state_of ?r) = Some (next_handle s)
        \<and> next_handle s \<in> set (pending_advances (state_of ?r))
        \<and> (\<forall>h. autoPlayInterval s = Some h \<and> h \<noteq> 0 \<longrightarrow>
              pending_advances (state_of ?r)
                = filter (\<lambda>x. x \<noteq> h) (pending_advances s) @ [next_handle s])
        \<and> (\<forall>k. currentSlide s = Num k \<and> 0 \<le> k \<and> k < ?n \<and> totalSlides s = length (slides s)
                \<and> length (dots s) = length (slides s) \<longrightarrow>
              shows_slide (nat ((k + 1) mod ?n)) (state_of ?r))"
  proof
    assume "50 < \<bar>startX - endX\<bar> \<and> 0 < startX - endX"
    then have c: "50 < \<bar>startX - endX\<bar>" "0 < startX - endX" by blast+
    have e: "?r = restartAutoPlay (nextSlide ?s2)"
      unfolding r by (simp only: c if_True)
    have basic: "currentSlide (state_of ?r) = currentSlide (nextSlide s)
        \<and> slides (state_of ?r) = slides (nextSlide s)
        \<and> dots (state_of ?r) = dots (nextSlide s)
        \<and> autoPlayInterval (state_of ?r) = Some (next_handle s)
        \<and> next_handle s \<in> set (pending_advances (state_of ?r))"
      unfolding e
      by (simp add: restartAutoPlay_presentation touch_coordinates_ignored slide_calls_frame
          restartAutoPlay_timer)
    have cancel: "\<forall>h. autoPlayInterval s = Some h \<and> h \<noteq> 0 \<longrightarrow>
              pending_advances (state_of ?r)
                = filter (\<lambda>x. x \<noteq> h) (pending_advances s) @ [next_handle s]"
    proof (intro allI impI)
      fix h
      assume "autoPlayInterval s = Some h \<and> h \<noteq> 0"
      then have "autoPlayInterval (nextSlide ?s2) = Some h" "h \<noteq> 0"
        by (simp_all add: swipe_call_timers)
      from restartAutoPlay_cancels [OF this]
      show "pending_advances (state_of ?r)
              = filter (\<lambda>x. x \<noteq> h) (pending_advances s) @ [next_handle s]"
        unfolding e by (simp only: swipe_call_timers)
    qed
    have deck: "\<forall>k. currentSlide s = Num k \<and> 0 \<le> k \<and> k < ?n \<and> totalSlides s = length (slides s)
                \<and> length (dots s) = length (slides s) \<longrightarrow>
              shows_slide (nat ((k + 1) mod ?n)) (state_of ?r)"
    proof (intro allI impI)
      fix k
      assume "currentSlide s = Num k \<and> 0 \<le> k \<and> k < ?n \<and> totalSlides s = length (slides s)
                \<and> length (dots s) = length (slides s)"
      then have "shows_slide (nat ((k + 1) mod ?n)) (nextSlide s)"
        by (intro nextSlide_shows) simp_all
      moreover have "presentation (state_of ?r) = presentation (nextSlide s)"
        unfolding e by (simp only: presentation_restartAutoPlay swipe_call_timers)
      ultimately show "shows_slide (nat ((k + 1) mod ?n)) (state_of ?r)"
        using shows_slide_cong by blast
    qed
    show "?r = restartAutoPlay (nextSlide ?s2)
        \<and> currentSlide (state_of ?r) = currentSlide (nextSlide s)
        \<and> slides (state_of ?r) = slides (nextSlide s)
        \<and> dots (state_of ?r) = dots (nextSlide s)
        \<and> autoPlayInterval (state_of ?r) = Some (next_handle s)
        \<and> next_handle s \<in> set (pending_advances (state_of ?r))
        \<and> (\<forall>h. autoPlayInterval s = Some h \<and> h \<noteq> 0 \<longrightarrow>
              pending_advances (state_of ?r)
                = filter (\<lambda>x. x \<noteq> h) (pending_advances s) @ [next_handle s])
        \<and> (\<forall>k. currentSlide s = Num k \<and> 0 \<le> k \<and> k < ?n \<and> totalSlides s = length (slides s)
                \<and> length (dots s) = length (slides s) \<longrightarrow>
              shows_slide (nat ((k + 1) mod ?n)) (state_of ?r))"
      using e basic cancel deck by blast
  qed
  have ret: "50 < \<bar>startX - endX\<bar> \<and> startX - endX < 0 \<longrightarrow>
          ?r = restartAutoPlay (prevSlide ?s2)
        \<and> currentSlide (state_of ?r) = currentSlide (prevSlide s)
        \<and> slides (state_of ?r) = slides (prevSlide s)
        \<and> dots (state_of ?r) = dots (prevSlide s)
        \<and> autoPlayInterval (state_of ?r) = Some (next_handle s)
        \<and> next_handle s \<in> set (pending_advances (state_of ?r))
        \<and> (\<forall>h. autoPlayInterval s = Some h \<and> h \<noteq> 0 \<longrightarrow>
              pending_advances (state_of ?r)
                = filter (\<lambda>x. x \<noteq> h) (pending_advances s) @ [next_handle s])
        \<and> (\<forall>k. currentSlide s = Num k \<and> 0 \<le> k \<and> k < ?n \<and> totalSlides s = length (slides s)
                \<and> length (dots s) = length (slides s) \<longrightarrow>
              shows_slide (nat ((k - 1) mod ?n)) (state_of ?r))"
  proof
    assume "50 < \<bar>startX - endX\<bar> \<and> startX - endX < 0"
    then have c: "50 < \<bar>startX - endX\<bar>" "\<not> 0 < startX - endX" by linarith+
    have e: "?r = restartAutoPlay (prevSlide ?s2)"
      unfolding r by (simp only: c if_True if_False)
    have basic: "currentSlide (state_of ?r) = currentSlide (prevSlide s)
        \<and> slides (state_of ?r) = slides (prevSlide s)
        \<and> dots (state_of ?r) = dots (prevSlide s)
        \<and> autoPlayInterval (state_of ?r) = Some (next_handle s)
        \<and> next_handle s \<in> set (pending_advances (state_of ?r))"
      unfolding e
      by (simp add: restartAutoPlay_presentation touch_coordinates_ignored slide_calls_frame
          restartAutoPlay_timer)
    have cancel: "\<forall>h. autoPlayInterval s = Some h \<and> h \<noteq> 0 \<longrightarrow>
              pending_advances (state_of ?r)
                = filter (\<lambda>x. x \<noteq> h) (pending_advances s) @ [next_handle s]"
    proof (intro allI impI)
      fix h
      assume "autoPlayInterval s = Some h \<and> h \<noteq> 0"
      then have "autoPlayInterval (prevSlide ?s2) = Some h" "h \<noteq> 0"
        by (simp_all add: swipe_call_timers)
      from restartAutoPlay_cancels [OF this]
      show "pending_advances (state_of ?r)
              = filter (\<lambda>x. x \<noteq> h) (pending_advances s) @ [next_handle s]"
        unfolding e by (simp only: swipe_call_timers)
    qed
    have deck: "\<forall>k. currentSlide s = Num k \<and> 0 \<le> k \<and> k < ?n \<and> totalSlides s = length (slides s)
                \<and> length (dots s) = length (slides s) \<longrightarrow>
              shows_slide (nat ((k - 1) mod ?n)) (state_of ?r)"
    proof (intro allI impI)
      fix k
      assume "currentSlide s = Num k \<and> 0 \<le> k \<and> k < ?n \<and> totalSlides s = length (slides s)
                \<and> length (dots s) = length (slides s)"
      then have "shows_slide (nat ((k - 1) mod ?n)) (prevSlide s)"
        by (intro prevSlide_shows) simp_all
      moreover have "presentation (state_of ?r) = presentation (prevSlide s)"
        unfolding e by (simp only: presentation_restartAutoPlay swipe_call_timers)
      ultimately show "shows_slide (nat ((k - 1) mod ?n)) (state_of ?r)"
        using shows_slide_cong by blast
    qed
    show "?r = restartAutoPlay (prevSlide ?s2)
        \<and> currentSlide (state_of ?r) = currentSlide (prevSlide s)
        \<and> slides (state_of ?r) = slides (prevSlide s)
        \<and> dots (state_of ?r) = dots (prevSlide s)
        \<and> autoPlayInterval (state_of ?r) = Some (next_handle s)
        \<and> next_handle s \<in> set (pending_advances (state_of ?r))
        \<and> (\<forall>h. autoPlayInterval s = Some h \<and> h \<noteq> 0 \<longrightarrow>
              pending_advances (state_of ?r)
                = filter (\<lambda>x. x \<noteq> h) (pending_advances s) @ [next_handle s])
        \<and> (\<forall>k. currentSlide s = Num k \<and> 0 \<le> k \<and> k < ?n \<and> totalSlides s = length (slides s)
                \<and> length (dots s) = length (slides s) \<longrightarrow>
              shows_slide (nat ((k - 1) mod ?n)) (state_of ?r))"
      using e basic cancel deck by blast
  qed
  have tap: "\<bar>startX - endX\<bar> \<le> 50 \<longrightarrow>
          ?r = Normal ?s2
        \<and> currentSlide (state_of ?r) = currentSlide s
        \<and> slides (state_of ?r) = slides s
        \<and> dots (state_of ?r) = dots s
        \<and> autoPlayInterval (state_of ?r) = autoPlayInterval s
        \<and> timers (state_of ?r) = timers s
        \<and> progressBar (state_of ?r) = progressBar s"
  proof
    assume "\<bar>startX - endX\<bar> \<le> 50"
    then have c: "\<not> 50 < \<bar>startX - endX\<bar>" by linarith
    have "?r = Normal ?s2"
      unfolding r by (simp only: c if_False)
    then show "?r = Normal ?s2
        \<and> currentSlide (state_of ?r) = currentSlide s
        \<and> slides (state_of ?r) = slides s
        \<and> dots (state_of ?r) = dots s
        \<and> autoPlayInterval (state_of ?r) = autoPlayInterval s
        \<and> timers (state_of ?r) = timers s
        \<and> progressBar (state_of ?r) = progressBar s"
      by simp
  qed
  show ?thesis
    unfolding Let_def using adv ret tap by blast
qed

text \<open>On the sample page, where advance 1 is pending: from 300 to 200 advances to slide
  1, from 200 to 300 retreats to slide 2, each leaving advance 2 alone pending; from 300
  to 280 does nothing.\<close>

theorem swipe_threshold_witness:
  "50 < \<bar>(300::int) - 200\<bar> \<and> (0::int) < 300 - 200
   \<and> currentSlide sample = Num 0
   \<and> currentSlide (state_of (handleTouchEnd 200 (handleTouchStart 300 sample))) = Num 1
   \<and> shows_slide 1 (state_of (handleTouchEnd 200 (handleTouchStart 300 sample)))
   \<and> autoPlayInterval sample = Some 1
   \<and> pending_advances sample = [1]
   \<and> autoPlayInterval (state_of (handleTouchEnd 200 (handleTouchStart 300 sample))) = Some 2
   \<and> pending_advances (state_of (handleTouchEnd 200 (handleTouchStart 300 sample))) = [2]
   \<and> 50 < \<bar>(200::int) - 300\<bar> \<and> (200::int) - 300 < 0
   \<and> currentSlide (state_of (handleTouchEnd 300 (handleTouchStart 200 sample))) = Num 2
   \<and> shows_slide 2 (state_of (handleTouchEnd 300 (handleTouchStart 200 sample)))
   \<and> pending_advances (state_of (handleTouchEnd 300 (handleTouchStart 200 sample))) = [2]
   \<and> \<bar>(300::int) - 280\<bar> \<le> 50
   \<and> handleTouchEnd 280 (handleTouchStart 300 sample)
       = Normal (sample\<lparr>touchStartX := 300, touchEndX := 280\<rparr>)"
proof -
  have s: "currentSlide sample = Num 0" "totalSlides sample = 3" "next_handle sample = 2"
    "autoPlayInterval sample = Some 1" "length (slides sample) = 3" "length (dots sample) = 3"
    by (simp_all add: sample_defs)
  have pa: "pending_advances sample = [1]" by (simp add: sample_defs pending_advances_def)
  have n: "currentSlide (nextSlide sample) = Num 1"
    by (simp add: nextSlide_def goToSlide_fields s)
  have p: "currentSlide (prevSlide sample) = Num 2"
    by (simp add: prevSlide_def goToSlide_fields s)
  have b: "50 < \<bar>(300::int) - 200\<bar> \<and> (0::int) < 300 - 200" by simp
  have b': "50 < \<bar>(200::int) - 300\<bar> \<and> (200::int) - 300 < 0" by simp
  have c: "\<bar>(300::int) - 280\<bar> \<le> 50" by simp
  have h: "autoPlayInterval sample = Some 1 \<and> (1::nat) \<noteq> 0" using s(4) by simp
  have k: "currentSlide sample = Num 0 \<and> (0::int) \<le> 0 \<and> (0::int) < int (length (slides sample))
      \<and> totalSlides sample = length (slides sample)
      \<and> length (dots sample) = length (slides sample)"
    using s by simp
  note B = swipe_threshold [where startX = 300 and s = sample and endX = 200, unfolded Let_def]
  note B' = swipe_threshold [where startX = 200 and s = sample and endX = 300, unfolded Let_def]
  note C = swipe_threshold [where startX = 300 and s = sample and endX = 280, unfolded Let_def]
  have "currentSlide (state_of (handleTouchEnd 200 (handleTouchStart 300 sample)))
          = currentSlide (nextSlide sample)"
    using B b by blast
  then have 1:
    "currentSlide (state_of (handleTouchEnd 200 (handleTouchStart 300 sample))) = Num 1"
    by (simp only: n)
  have "autoPlayInterval (state_of (handleTouchEnd 200 (handleTouchStart 300 sample)))
          = Some (next_handle sample)"
    using B b by blast
  then have 2:
    "autoPlayInterval (state_of (handleTouchEnd 200 (handleTouchStart 300 sample))) = Some 2"
    by (simp only: s(3))
  have "pending_advances (state_of (handleTouchEnd 200 (handleTouchStart 300 sample)))
          = filter (\<lambda>x. x \<noteq> 1) (pending_advances sample) @ [next_handle sample]"
    using B b h by blast
  then have 3:
    "pending_advances (state_of (handleTouchEnd 200 (handleTouchStart 300 sample))) = [2]"
    by (simp add: pa s(3))
  have "shows_slide (nat ((0 + 1) mod int (length (slides sample))))
          (state_of (handleTouchEnd 200 (handleTouchStart 300 sample)))"
    using B b k by blast
  then have 4: "shows_slide 1 (state_of (handleTouchEnd 200 (handleTouchStart 300 sample)))"
    by (simp add: s(5))
  have "currentSlide (state_of (handleTouchEnd 300 (handleTouchStart 200 sample)))
          = currentSlide (prevSlide sample)"
    using B' b' by blast
  then have 5:
    "currentSlide (state_of (handleTouchEnd 300 (handleTouchStart 200 sample))) = Num 2"
    by (simp only: p)
  have "shows_slide (nat ((0 - 1) mod int (length (slides sample))))
          (state_of (handleTouchEnd 300 (handleTouchStart 200 sample)))"
    using B' b' k by blast
  then have 6: "shows_slide 2 (state_of (handleTouchEnd 300 (handleTouchStart 200 sample)))"
    by (simp add: s(5))
  have "pending_advances (state_of (handleTouchEnd 300 (handleTouchStart 200 sample)))
          = filter (\<lambda>x. x \<noteq> 1) (pending_advances sample) @ [next_handle sample]"
    using B' b' h by blast
  then have 7:
    "pending_advances (state_of (handleTouchEnd 300 (handleTouchStart 200 sample))) = [2]"
    by (simp add: pa s(3))
  have 8: "handleTouchEnd 280 (handleTouchStart 300 sample)
       = Normal (sample\<lparr>touchStartX := 300, touchEndX := 280\<rparr>)"
    using C c by blast
  show ?thesis using b b' c s(1,4) pa 1 2 3 4 5 6 7 8 by blast
qed

section \<open>Page visibility\<close>

subsection \<open>Stopping and starting\<close>

lemma stopAutoPlay_frame:
  "currentSlide (stopAutoPlay s) = currentSlide s"
  "slides (stopAutoPlay s) = slides s"
  "dots (stopAutoPlay s) = dots s"
  "autoPlayInterval (stopAutoPlay s) = autoPlayInterval s"
  "touchStartX (stopAutoPlay s) = touchStartX s"
  by (simp_all add: stopAutoPlay_def clearInterval_def split: option.splits)

lemma startAutoPlay_frame:
  "currentSlide (startAutoPlay s) = currentSlide s"
  "slides (startAutoPlay s) = slides s"
  "dots (startAutoPlay s) = dots s"
  "touchStartX (startAutoPlay s) = touchStartX s"
  by (simp_all add: startAutoPlay_def schedule_def)

text \<open>
  What the two branches of the visibility listener do. When the page becomes hidden the
  listener calls \<^verbatim>\<open>stopAutoPlay\<close>: the advance under the stored handle is no longer
  pending, and where that was the only pending advance none is left. When the page
  becomes visible the listener calls \<^verbatim>\<open>startAutoPlay\<close>, not \<^verbatim>\<open>restartAutoPlay\<close>:
  one more advance is pending under a fresh handle, while the progress bar is not
  touched and no animation reset is scheduled. Neither transition changes
  \<^verbatim>\<open>currentSlide\<close> or a class.
\<close>

lemma visibility_handlers:
  "(\<forall>h. autoPlayInterval s = Some h \<and> h \<noteq> 0 \<longrightarrow>
        h \<notin> set (pending_advances (handleVisibilityChange True s))
      \<and> (set (pending_advances s) \<subseteq> {h} \<longrightarrow>
           pending_advances (handleVisibilityChange True s) = []))
   \<and> currentSlide (handleVisibilityChange True s) = currentSlide s
   \<and> slides (handleVisibilityChange True s) = slides s
   \<and> dots (handleVisibilityChange True s) = dots s
   \<and> progressBar (handleVisibilityChange True s) = progressBar s
   \<and> handleVisibilityChange False s = startAutoPlay s
   \<and> pending_advances (handleVisibilityChange False s) = pending_advances s @ [next_handle s]
   \<and> autoPlayInterval (handleVisibilityChange False s) = Some (next_handle s)
   \<and> progressBar (handleVisibilityChange False s) = progressBar s
   \<and> pending_animations (handleVisibilityChange False s) = pending_animations s
   \<and> currentSlide (handleVisibilityChange False s) = currentSlide s
   \<and> slides (handleVisibilityChange False s) = slides s
   \<and> dots (handleVisibilityChange False s) = dots s"
proof -
  have hid: "\<forall>h. autoPlayInterval s = Some h \<and> h \<noteq> 0 \<longrightarrow>
        h \<notin> set (pending_advances (handleVisibilityChange True s))
      \<and> (set (pending_advances s) \<subseteq> {h} \<longrightarrow>
           pending_advances (handleVisibilityChange True s) = [])"
  proof (intro allI impI)
    fix h
    assume "autoPlayInterval s = Some h \<and> h \<noteq> 0"
    then have p: "pending_advances (handleVisibilityChange True s)
        = filter (\<lambda>x. x \<noteq> h) (pending_advances s)"
      by (simp add: handleVisibilityChange_def stopAutoPlay_pending)
    show "h \<notin> set (pending_advances (handleVisibilityChange True s))
      \<and> (set (pending_advances s) \<subseteq> {h} \<longrightarrow>
           pending_advances (handleVisibilityChange True s) = [])"
      unfolding p by (auto simp: filter_empty_conv)
  qed
  have stop: "currentSlide (handleVisibilityChange True s) = currentSlide s"
    "slides (handleVisibilityChange True s) = slides s"
    "dots (handleVisibilityChange True s) = dots s"
    "progressBar (handleVisibilityChange True s) = progressBar s"
    by (simp_all add: handleVisibilityChange_def stopAutoPlay_frame progressBar_kept)
  have start: "handleVisibilityChange False s = startAutoPlay s"
    "pending_advances (handleVisibilityChange False s) = pending_advances s @ [next_handle s]"
    "autoPlayInterval (handleVisibilityChange False s) = Some (next_handle s)"
    "progressBar (handleVisibilityChange False s) = progressBar s"
    "pending_animations (handleVisibilityChange False s) = pending_animations s"
    "currentSlide (handleVisibilityChange False s) = currentSlide s"
    "slides (handleVisibilityChange False s) = slides s"
    "dots (handleVisibilityChange False s) = dots s"
    by (simp_all add: handleVisibilityChange_def startAutoPlay_frame startAutoPlay_pending
        progressBar_kept)
  show ?thesis
    using hid stop start by blast
qed

section \<open>Starting autoplay twice\<close>

lemma startAutoPlay_twice:
  "pending_advances (startAutoPlay (startAutoPlay s))
     = pending_advances s @ [next_handle s, Suc (next_handle s)]"
  by (simp add: startAutoPlay_def schedule_def pending_advances_def)

text \<open>
  Claim C2 says that at most one recurring advance is ever pending and that
  \<^verbatim>\<open>startAutoPlay\<close> does nothing while one is running. \<^verbatim>\<open>startAutoPlay\<close> has no
  such test: it always calls \<^verbatim>\<open>setInterval\<close> and overwrites the stored handle.
  The constructor has started autoplay (handle 1); a further \<^verbatim>\<open>startAutoPlay\<close>, as
  the visibility listener makes when the page becomes visible, leaves two advances
  pending, and the first can no longer be cancelled: \<^verbatim>\<open>stopAutoPlay\<close> and
  \<^verbatim>\<open>restartAutoPlay\<close> only clear the handle stored last.
\<close>

theorem second_start_second_schedule:
  "pending_advances sample = [1]
   \<and> autoPlayInterval sample = Some 1
   \<and> pending_advances (startAutoPlay sample) = [1, 2]
   \<and> autoPlayInterval (startAutoPlay sample) = Some 2
   \<and> pending_advances (handleVisibilityChange False sample) = [1, 2]
   \<and> pending_advances (stopAutoPlay (startAutoPlay sample)) = [1]
   \<and> pending_advances (state_of (restartAutoPlay (startAutoPlay sample))) = [1, 3]"
  by (simp add: sample_defs pending_advances_def handleVisibilityChange_def restartAutoPlay_def
      restartProgressBar_def stopAutoPlay_def clearInterval_def)

section \<open>Hiding the page after a second start\<close>

text \<open>
  Claim C8 says that on every transition to hidden the autoplay timer is stopped, that
  on the way back it is started with \<^verbatim>\<open>startAutoPlay\<close> rather than
  \<^verbatim>\<open>restartAutoPlay\<close>, and that the slide index does not change. The second half
  holds (\<open>visibility_handlers\<close>). The first fails through the missing test in
  \<^verbatim>\<open>startAutoPlay\<close> shown in the section before: on the sample page loaded in the
  background, the first visibility event is the change to
  visible, whose \<^verbatim>\<open>startAutoPlay\<close> leaves advances 1 and 2 pending; the following
  change to hidden clears handle 2 only. Advance 1 stays pending while the page is
  hidden, and two of its ticks move \<^verbatim>\<open>currentSlide\<close> from 0 to 2.
\<close>

theorem hidden_leaves_an_advance_pending:
  "pending_advances sample = [1]
   \<and> pending_advances (run_events [VisibilityChange False] sample) = [1, 2]
   \<and> autoPlayInterval (run_events [VisibilityChange False] sample) = Some 2
   \<and> pending_advances (run_events [VisibilityChange False, VisibilityChange True] sample) = [1]
   \<and> enabled (run_events [VisibilityChange False, VisibilityChange True] sample) (IntervalFires 1)
   \<and> currentSlide (run_events [VisibilityChange False, VisibilityChange True] sample) = Num 0
   \<and> currentSlide
        (run_events [VisibilityChange False, VisibilityChange True, IntervalFires 1,
                     IntervalFires 1] sample)
       = Num 2"
  by code_simp

section \<open>A page without slides\<close>

lemma js_mod_zero: "js_mod x (Num 0) = NaN"
  by (cases x) simp_all

text \<open>
  Claim C5 says that with zero slides every operation leaves the whole state, and
  \<^verbatim>\<open>currentSlide\<close> with it, unchanged. On the page without slides and dots,
  \<^verbatim>\<open>nextSlide\<close> and \<^verbatim>\<open>prevSlide\<close> take a remainder by zero and store
  \<^verbatim>\<open>NaN\<close> in \<^verbatim>\<open>currentSlide\<close>, which held \<open>0\<close>, and \<^verbatim>\<open>goToSlide(3)\<close> stores
  \<open>3\<close>.
\<close>

theorem zero_slides_counterexample:
  "totalSlides sample_empty = 0
   \<and> slides sample_empty = []
   \<and> currentSlide sample_empty = Num 0
   \<and> currentSlide (nextSlide sample_empty) = NaN
   \<and> currentSlide (prevSlide sample_empty) = NaN
   \<and> currentSlide (goToSlide (Num 3) sample_empty) = Num 3
   \<and> nextSlide sample_empty \<noteq> sample_empty"
proof -
  have a: "totalSlides sample_empty = 0" "slides sample_empty = []"
    "currentSlide sample_empty = Num 0"
    by (simp_all add: sample_defs)
  have n: "currentSlide (nextSlide sample_empty) = NaN"
    by (simp add: nextSlide_def goToSlide_fields a)
  have p: "currentSlide (prevSlide sample_empty) = NaN"
    by (simp add: prevSlide_def goToSlide_fields a)
  have "currentSlide (nextSlide sample_empty) \<noteq> currentSlide sample_empty"
    by (simp add: n a)
  then have "nextSlide sample_empty \<noteq> sample_empty" by auto
  then show ?thesis using a n p by (simp add: goToSlide_fields)
qed

text \<open>
  Claim C5, amended. With zero slides, \<^verbatim>\<open>goToSlide\<close>, \<^verbatim>\<open>nextSlide\<close> and
  \<^verbatim>\<open>prevSlide\<close> raise nothing (they are total functions on the state) and leave the
  empty slide list, the timers, the progress bar and the touch coordinates as they are,
  but they write \<^verbatim>\<open>currentSlide\<close>: \<^verbatim>\<open>goToSlide(k)\<close> stores \<open>k\<close>, and
  \<^verbatim>\<open>nextSlide\<close> and \<^verbatim>\<open>prevSlide\<close> are \<^verbatim>\<open>goToSlide(NaN)\<close>. The dots, if the
  page has any, are toggled for the stored index, so after \<^verbatim>\<open>nextSlide\<close> or
  \<^verbatim>\<open>prevSlide\<close> no dot is active; with no dots either, \<^verbatim>\<open>currentSlide\<close> is the
  only field that changes.
\<close>

theorem zero_slides:
  assumes "slides s = []" and "totalSlides s = 0"
  shows "nextSlide s = goToSlide NaN s
    \<and> prevSlide s = goToSlide NaN s
    \<and> goToSlide k s = s\<lparr>dots := forEach (update_dot k) (dots s), currentSlide := k\<rparr>
    \<and> slides (goToSlide k s) = []
    \<and> (dots s = [] \<longrightarrow> goToSlide k s = s\<lparr>currentSlide := k\<rparr>)
    \<and> (\<forall>j < length (dots s). \<not> has_class ''active'' (dots (goToSlide NaN s) ! j))"
proof -
  have n: "nextSlide s = goToSlide NaN s"
    using assms(2) by (simp add: nextSlide_def js_mod_zero del: js_mod.simps)
  have p: "prevSlide s = goToSlide NaN s"
    using assms(2) by (simp add: prevSlide_def js_mod_zero del: js_mod.simps)
  have g: "goToSlide k s = s\<lparr>dots := forEach (update_dot k) (dots s), currentSlide := k\<rparr>"
    using assms(1) by (simp add: goToSlide_def forEach_def)
  have e: "slides (goToSlide k s) = []"
    using assms(1) by (simp add: goToSlide_def forEach_def)
  have d: "dots s = [] \<longrightarrow> goToSlide k s = s\<lparr>currentSlide := k\<rparr>"
    using assms(1) by (simp add: goToSlide_def forEach_def)
  have a: "\<forall>j < length (dots s). \<not> has_class ''active'' (dots (goToSlide NaN s) ! j)"
    by (simp add: goToSlide_dot_nth has_class_update_dot)
  show ?thesis using n p g e d a by blast
qed

text \<open>The page without slides and dots.\<close>

theorem zero_slides_witness:
  "slides sample_empty = [] \<and> totalSlides sample_empty = 0
   \<and> nextSlide sample_empty = goToSlide NaN sample_empty
   \<and> prevSlide sample_empty = goToSlide NaN sample_empty
   \<and> dots sample_empty = []
   \<and> goToSlide NaN sample_empty = sample_empty\<lparr>currentSlide := NaN\<rparr>"
proof -
  have a: "slides sample_empty = []" and b: "totalSlides sample_empty = 0"
    and c: "dots sample_empty = []"
    by (simp_all add: sample_defs)
  note Z = zero_slides [OF a b, of NaN]
  have "goToSlide NaN sample_empty = sample_empty\<lparr>currentSlide := NaN\<rparr>"
    using Z c by blast
  then show ?thesis using Z a b c by blast
qed

section \<open>A touch end without a touch start\<close>

text \<open>
  Claim C4 says that a touch end that arrives before any touch start is a no-op for
  every end coordinate. The constructor sets \<^verbatim>\<open>touchStartX\<close> to \<open>0\<close>, which is an
  ordinary coordinate: on the freshly built sample page a touch end at \<open>200\<close> gives
  \<open>diff = -200\<close>, so \<^verbatim>\<open>prevSlide\<close> runs (the slide goes from 0 to 2) and autoplay is
  restarted (the stored handle goes from 1 to 2).
\<close>

theorem touch_end_without_touch_start_counterexample:
  "touchStartX sample = 0
   \<and> handleTouchEnd 200 sample = restartAutoPlay (prevSlide (sample\<lparr>touchEndX := 200\<rparr>))
   \<and> currentSlide sample = Num 0
   \<and> currentSlide (state_of (handleTouchEnd 200 sample)) = Num 2
   \<and> autoPlayInterval sample = Some 1
   \<and> autoPlayInterval (state_of (handleTouchEnd 200 sample)) = Some 2"
proof -
  have s: "touchStartX sample = 0" "currentSlide sample = Num 0" "totalSlides sample = 3"
    "autoPlayInterval sample = Some 1" "next_handle sample = 2"
    by (simp_all add: sample_defs)
  have h: "handleTouchEnd 200 sample = restartAutoPlay (prevSlide (sample\<lparr>touchEndX := 200\<rparr>))"
    by (simp add: handleTouchEnd_def handleSwipe_def SWIPE_THRESHOLD_def Let_def s)
  have c: "currentSlide (state_of (handleTouchEnd 200 sample)) = Num 2"
    unfolding h by (simp add: restartAutoPlay_presentation prevSlide_def goToSlide_fields s)
  have t: "autoPlayInterval (state_of (handleTouchEnd 200 sample)) = Some 2"
    unfolding h by (simp add: restartAutoPlay_timer slide_calls_frame s)
  show ?thesis using s h c t by blast
qed

subsection \<open>Only a touch start writes the start coordinate\<close>

lemma restartAutoPlay_frame:
  "touchStartX (state_of (restartAutoPlay s)) = touchStartX s"
  "(progressBar (state_of (restartAutoPlay s)) = None) = (progressBar s = None)"
  by (simp_all add: timer_defs split: option.splits)

lemma restartAutoPlay_with_bar:
  "progressBar s \<noteq> None \<Longrightarrow> \<not> threw (restartAutoPlay s)"
  by (auto simp: restartAutoPlay_def restartProgressBar_def progressBar_kept)

lemma fire_frame:
  assumes "\<forall>x. e \<noteq> TouchStart x"
  shows "touchStartX (state_of (fire e s)) = touchStartX s"
    and "(progressBar (state_of (fire e s)) = None) = (progressBar s = None)"
proof -
  show "touchStartX (state_of (fire e s)) = touchStartX s"
    using assms
    by (cases e)
      (simp_all add: dotClick_def handleKeydown_def handleTouchEnd_def handleSwipe_def
        handleVisibilityChange_def intervalCallback_def timeoutCallback_def clearInterval_def
        Let_def restartAutoPlay_frame slide_calls_frame stopAutoPlay_frame startAutoPlay_frame
        split: option.splits)
  show "(progressBar (state_of (fire e s)) = None) = (progressBar s = None)"
    using assms
    by (cases e)
      (simp_all add: dotClick_def handleKeydown_def handleTouchEnd_def handleSwipe_def
        handleVisibilityChange_def intervalCallback_def timeoutCallback_def clearInterval_def
        Let_def restartAutoPlay_frame progressBar_kept
        split: option.splits)
qed

lemma run_events_frame:
  assumes "\<forall>x. TouchStart x \<notin> set es"
  shows "touchStartX (run_events es s) = touchStartX s
       \<and> (progressBar (run_events es s) = None) = (progressBar s = None)"
  using assms
proof (induction es arbitrary: s)
  case Nil
  then show ?case by simp
next
  case (Cons e es)
  then have e: "\<forall>x. e \<noteq> TouchStart x" and es: "\<forall>x. TouchStart x \<notin> set es"
    by auto
  show ?case
    using Cons.IH [OF es] fire_frame [OF e] by simp
qed

text \<open>
  Claim C4, amended. As long as no touch start has been delivered since construction,
  whatever other events have been, \<^verbatim>\<open>touchStartX\<close> is the constructor's \<open>0\<close> and a
  touch end at \<open>endX\<close> computes \<open>diff = - endX\<close>: for \<open>endX > 50\<close> it calls
  \<^verbatim>\<open>prevSlide\<close> and restarts autoplay, for \<open>endX < -50\<close> it calls \<^verbatim>\<open>nextSlide\<close> and
  restarts autoplay, and only for \<open>\<bar>endX\<bar> \<le> 50\<close> is it a no-op that records the end
  coordinate. On a page that has the progress bar the handler does not throw.
\<close>

theorem touch_end_before_any_touch_start:
  assumes "\<forall>x. TouchStart x \<notin> set es"
    and "s = run_events es (new_RibbonSlider ribbon_items nav_dots bar h0)"
  shows "touchStartX s = 0
    \<and> (50 < endX \<longrightarrow> handleTouchEnd endX s = restartAutoPlay (prevSlide (s\<lparr>touchEndX := endX\<rparr>)))
    \<and> (endX < - 50 \<longrightarrow> handleTouchEnd endX s = restartAutoPlay (nextSlide (s\<lparr>touchEndX := endX\<rparr>)))
    \<and> (\<bar>endX\<bar> \<le> 50 \<longrightarrow> handleTouchEnd endX s = Normal (s\<lparr>touchEndX := endX\<rparr>))
    \<and> (bar \<noteq> None \<longrightarrow> \<not> threw (handleTouchEnd endX s))"
proof -
  let ?s0 = "new_RibbonSlider ribbon_items nav_dots bar h0"
  have s0: "touchStartX ?s0 = 0" "progressBar ?s0 = bar"
    by (simp_all add: new_RibbonSlider_def init_def startAutoPlay_def schedule_def)
  have z: "touchStartX s = 0" and b: "(progressBar s = None) = (bar = None)"
    using run_events_frame [OF assms(1), of ?s0] s0 assms(2) by simp_all
  let ?s2 = "s\<lparr>touchEndX := endX\<rparr>"
  have r: "handleTouchEnd endX s =
      (if 50 < \<bar>- endX\<bar> then restartAutoPlay (if 0 < - endX then nextSlide ?s2 else prevSlide ?s2)
       else Normal ?s2)"
    by (simp add: handleTouchEnd_def handleSwipe_def SWIPE_THRESHOLD_def Let_def z)
  have 1: "50 < endX \<longrightarrow> handleTouchEnd endX s = restartAutoPlay (prevSlide ?s2)"
  proof
    assume "50 < endX"
    then have c: "50 < \<bar>- endX\<bar>" "\<not> 0 < - endX" by linarith+
    show "handleTouchEnd endX s = restartAutoPlay (prevSlide ?s2)"
      unfolding r by (simp only: c if_True if_False)
  qed
  have 2: "endX < - 50 \<longrightarrow> handleTouchEnd endX s = restartAutoPlay (nextSlide ?s2)"
  proof
    assume "endX < - 50"
    then have c: "50 < \<bar>- endX\<bar>" "0 < - endX" by linarith+
    show "handleTouchEnd endX s = restartAutoPlay (nextSlide ?s2)"
      unfolding r by (simp only: c if_True)
  qed
  have 3: "\<bar>endX\<bar> \<le> 50 \<longrightarrow> handleTouchEnd endX s = Normal ?s2"
  proof
    assume "\<bar>endX\<bar> \<le> 50"
    then have c: "\<not> 50 < \<bar>- endX\<bar>" by linarith
    show "handleTouchEnd endX s = Normal ?s2"
      unfolding r by (simp only: c if_False)
  qed
  have 4: "bar \<noteq> None \<longrightarrow> \<not> threw (handleTouchEnd endX s)"
  proof
    assume "bar \<noteq> None"
    then have "progressBar s \<noteq> None" using b by simp
    then have "\<not> threw (restartAutoPlay (nextSlide ?s2))" "\<not> threw (restartAutoPlay (prevSlide ?s2))"
      by (simp_all add: restartAutoPlay_with_bar progressBar_kept)
    then show "\<not> threw (handleTouchEnd endX s)"
      unfolding r by simp
  qed
  show ?thesis using z 1 2 3 4 by blast
qed

text \<open>The sample page after a right-arrow key and a change to hidden.\<close>

theorem touch_end_before_any_touch_start_witness:
  "(\<forall>x. TouchStart x \<notin> set [KeyDown ''ArrowRight'', VisibilityChange True])
   \<and> touchStartX (run_events [KeyDown ''ArrowRight'', VisibilityChange True] sample) = 0
   \<and> (50::int) < 200
   \<and> handleTouchEnd 200 (run_events [KeyDown ''ArrowRight'', VisibilityChange True] sample)
       = restartAutoPlay (prevSlide
           ((run_events [KeyDown ''ArrowRight'', VisibilityChange True] sample)
              \<lparr>touchEndX := 200\<rparr>))
   \<and> \<bar>20::int\<bar> \<le> 50
   \<and> handleTouchEnd 20 (run_events [KeyDown ''ArrowRight'', VisibilityChange True] sample)
       = Normal ((run_events [KeyDown ''ArrowRight'', VisibilityChange True] sample)
                   \<lparr>touchEndX := 20\<rparr>)
   \<and> Some progress_fill \<noteq> None
   \<and> \<not> threw (handleTouchEnd 200
                 (run_events [KeyDown ''ArrowRight'', VisibilityChange True] sample))"
proof -
  let ?es = "[KeyDown ''ArrowRight'', VisibilityChange True]"
  have h: "\<forall>x. TouchStart x \<notin> set ?es" by simp
  have e: "run_events ?es sample
      = run_events ?es (new_RibbonSlider sample_slides sample_dots (Some progress_fill) 1)"
    by (simp only: sample_def)
  have a: "(50::int) < 200" and b: "\<bar>20::int\<bar> \<le> 50" and c: "Some progress_fill \<noteq> None"
    by simp_all
  note T = touch_end_before_any_touch_start [OF h e, of 200]
  note U = touch_end_before_any_touch_start [OF h e, of 20]
  have 1: "touchStartX (run_events ?es sample) = 0" using T by blast
  have 2: "handleTouchEnd 200 (run_events ?es sample)
       = restartAutoPlay (prevSlide ((run_events ?es sample)\<lparr>touchEndX := 200\<rparr>))"
    using T a by blast
  have 3: "handleTouchEnd 20 (run_events ?es sample)
       = Normal ((run_events ?es sample)\<lparr>touchEndX := 20\<rparr>)"
    using U b by blast
  have 4: "\<not> threw (handleTouchEnd 200 (run_events ?es sample))"
    using T c by blast
  show ?thesis using h a b c 1 2 3 4 by blast
qed

end
